theory Spec2Isabelle
  imports Main "HOL-Library.Sublist"
begin

section \<open>Strings\<close>

text \<open>
  A Python string is a sequence of Unicode code points; a code point is modelled by its
  number, an integer. String literals of the examples are ASCII text, written with
  \<open>ascii\<close>.
\<close>

type_synonym codepoint = int

type_synonym str = "codepoint list"

definition ascii :: "string \<Rightarrow> str" where
  "ascii s = map of_char s"

section \<open>Errors and decoded payloads\<close>

text \<open>
  The exceptions the modelled code can raise. \<open>ValueError\<close> is what
  \<^verbatim>\<open>get_artist_id\<close> raises when it finds no id (the specification calls it a lookup
  error). \<open>KeyboardInterrupt\<close> stands for the exceptions that derive from
  \<^verbatim>\<open>BaseException\<close> only, which \<^verbatim>\<open>except Exception\<close> does not catch.
\<close>

datatype exn =
    ValueError
  | TypeError
  | UnboundLocalError
  | IndexError
  | RequestError
  | FileNotFoundError
  | KeyboardInterrupt

text \<open>\<^verbatim>\<open>isinstance(e, Exception)\<close>.\<close>

fun is_Exception :: "exn \<Rightarrow> bool" where
  "is_Exception KeyboardInterrupt = False"
| "is_Exception _ = True"

text \<open>
  The decoded JSON of the platform: an artist object with the keys the code reads
  (\<^verbatim>\<open>id\<close>, \<^verbatim>\<open>name\<close>, \<^verbatim>\<open>url\<close>) and a song object
  (\<^verbatim>\<open>id\<close>, \<^verbatim>\<open>title\<close>, \<^verbatim>\<open>full_title\<close>, \<^verbatim>\<open>url\<close>,
  \<^verbatim>\<open>primary_artist\<close>, \<^verbatim>\<open>featured_artists\<close>). Records are extensible, as a
  dictionary with further keys is.
\<close>

record artist_data =
  ad_id :: int
  ad_name :: str
  ad_url :: str

record song_data =
  sd_id :: int
  sd_title :: str
  sd_full_title :: str
  sd_url :: str
  sd_primary_artist :: artist_data
  sd_featured_artists :: "artist_data list"

section \<open>Resolver: the scan of \<^verbatim>\<open>get_artist_id\<close>\<close>

text \<open>
  Lines 261 to 281 of \<^verbatim>\<open>lyricist.py\<close>. The function is modelled from the point
  where the canonical \<open>name\<close> and the decoded \<^verbatim>\<open>artist_songs\<close> payload are at hand;
  the outcome of the search request of line 272 is the third argument.

  A \<^verbatim>\<open>for\<close> loop either returns from the function or falls through; when it falls
  through, its loop variable keeps the last value it was bound to, or stays unbound when
  the list was empty.
\<close>

datatype ('r, 'v) flow = Returned 'r | Fell_through 'v

text \<open>Lines 265 to 267 (and 277 to 279): the loop over a song's featured artists.\<close>

fun scan_featured :: "str \<Rightarrow> artist_data list \<Rightarrow> int option" where
  "scan_featured name [] = None"
| "scan_featured name (featured_artist # rest) =
     (if ad_name featured_artist = name then Some (ad_id featured_artist)
      else scan_featured name rest)"

text \<open>
  Lines 261 to 267: the loop over the songs of the artist page. The second argument is
  the binding of the loop variable \<^verbatim>\<open>song\<close> so far.
\<close>

fun scan_songs :: "str \<Rightarrow> song_data option \<Rightarrow> song_data list \<Rightarrow> (int, song_data option) flow" where
  "scan_songs name song [] = Fell_through song"
| "scan_songs name song (s # rest) =
     (if ad_name (sd_primary_artist s) = name then Returned (ad_id (sd_primary_artist s))
      else (case scan_featured name (sd_featured_artists s) of
              Some i \<Rightarrow> Returned i
            | None \<Rightarrow> scan_songs name (Some s) rest))"

text \<open>
  Lines 273 to 281: the loop over the search hits (each hit given by its
  \<^verbatim>\<open>result\<close>). The inner loop of line 277 reads \<^verbatim>\<open>song\<close>, the loop variable
  of the first loop, not the hit; reading it unbound raises \<^verbatim>\<open>UnboundLocalError\<close>.
\<close>

fun scan_hits :: "str \<Rightarrow> song_data option \<Rightarrow> song_data list \<Rightarrow> exn + int" where
  "scan_hits name song [] = Inl ValueError"
| "scan_hits name song (hit # rest) =
     (if ad_name (sd_primary_artist hit) = name then Inr (ad_id (sd_primary_artist hit))
      else (case song of
              None \<Rightarrow> Inl UnboundLocalError
            | Some s \<Rightarrow>
                (case scan_featured name (sd_featured_artists s) of
                   Some i \<Rightarrow> Inr i
                 | None \<Rightarrow> scan_hits name song rest)))"

definition get_artist_id :: "str \<Rightarrow> song_data list \<Rightarrow> exn + song_data list \<Rightarrow> exn + int" where
  "get_artist_id name songs search =
     (case scan_songs name None songs of
        Returned i \<Rightarrow> Inr i
      | Fell_through song \<Rightarrow>
          (case search of
             Inl e \<Rightarrow> Inl e
           | Inr hits \<Rightarrow> scan_hits name song hits))"

text \<open>
  The records of a payload in the order the first tier meets them: song by song, the
  primary artist of a song before its featured artists.
\<close>

definition scan_order :: "song_data list \<Rightarrow> artist_data list" where
  "scan_order songs = concat (map (\<lambda>s. sd_primary_artist s # sd_featured_artists s) songs)"

section \<open>Text\<close>

definition newline :: codepoint where
  "newline = 10"

text \<open>
  \<^verbatim>\<open>unicodedata.normalize\<close>, \<^verbatim>\<open>str.casefold\<close> and the classes \<^verbatim>\<open>\w\<close> and
  \<^verbatim>\<open>\s\<close> of \<^verbatim>\<open>re\<close> read the tables of the Unicode Character Database that the
  interpreter was built with. The tables are a parameter of the model: for every code
  point its full compatibility decomposition (the code point itself when it has none),
  its canonical combining class, whether it is alphanumeric (\<^verbatim>\<open>str.isalnum\<close>),
  whether it is white space (\<^verbatim>\<open>str.isspace\<close>) and its full case folding. On the
  ASCII code points, below 128, the tables are the same in every version and written
  out here; the parameter is read above them only.
\<close>

record ucd =
  u_decomposition :: "codepoint \<Rightarrow> str"
  u_combining :: "codepoint \<Rightarrow> nat"
  u_alnum :: "codepoint \<Rightarrow> bool"
  u_space :: "codepoint \<Rightarrow> bool"
  u_casefold :: "codepoint \<Rightarrow> str"

definition decompose :: "ucd \<Rightarrow> codepoint \<Rightarrow> str" where
  "decompose U c = (if c < 128 then [c] else u_decomposition U c)"

definition ccc :: "ucd \<Rightarrow> codepoint \<Rightarrow> nat" where
  "ccc U c = (if c < 128 then 0 else u_combining U c)"

text \<open>
  The canonical ordering of the normalisation forms: a character with a combining class
  other than 0 moves in front of the characters before it that have a greater class.
  \<open>put_mark\<close> adds one character to the ordered text so far, which is given last
  character first.
\<close>

fun put_mark :: "ucd \<Rightarrow> codepoint \<Rightarrow> str \<Rightarrow> str" where
  "put_mark U c [] = [c]"
| "put_mark U c (b # bs) =
     (if ccc U c \<noteq> 0 \<and> ccc U c < ccc U b then b # put_mark U c bs else c # b # bs)"

definition canonical_order :: "ucd \<Rightarrow> str \<Rightarrow> str" where
  "canonical_order U s = rev (foldl (\<lambda>out c. put_mark U c out) [] s)"

text \<open>
  \<^verbatim>\<open>unicodedata.normalize("NFKD", s)\<close>: every character is replaced by its full
  compatibility decomposition, then the combining marks are put in canonical order.
\<close>

definition nfkd :: "ucd \<Rightarrow> str \<Rightarrow> str" where
  "nfkd U s = canonical_order U (concat (map (decompose U) s))"

text \<open>
  The class \<^verbatim>\<open>\w\<close> of a \<^verbatim>\<open>str\<close> pattern holds the alphanumeric characters and the
  underscore; the class \<^verbatim>\<open>\s\<close> holds the white space, which on ASCII is the code
  points 9 to 13 and 28 to 32.
\<close>

definition is_word_char :: "ucd \<Rightarrow> codepoint \<Rightarrow> bool" where
  "is_word_char U c \<longleftrightarrow>
     (if c < 128
      then (48 \<le> c \<and> c \<le> 57) \<or> (65 \<le> c \<and> c \<le> 90) \<or> c = 95 \<or> (97 \<le> c \<and> c \<le> 122)
      else u_alnum U c)"

definition is_space_char :: "ucd \<Rightarrow> codepoint \<Rightarrow> bool" where
  "is_space_char U c \<longleftrightarrow>
     (if c < 128 then (9 \<le> c \<and> c \<le> 13) \<or> (28 \<le> c \<and> c \<le> 32) else u_space U c)"

text \<open>
  \<^verbatim>\<open>str.casefold\<close> replaces every character by its full case folding, which can be
  more than one character; on ASCII the letters A to Z become lower case.
\<close>

definition casefold_char :: "ucd \<Rightarrow> codepoint \<Rightarrow> str" where
  "casefold_char U c =
     (if c < 128 then [if 65 \<le> c \<and> c \<le> 90 then c + 32 else c] else u_casefold U c)"

definition casefold :: "ucd \<Rightarrow> str \<Rightarrow> str" where
  "casefold U s = concat (map (casefold_char U) s)"

text \<open>
  \<^verbatim>\<open>re.sub\<close> with a pattern that is one character class: every character of the
  class is replaced, the others are kept.
\<close>

definition re_sub_class :: "(codepoint \<Rightarrow> bool) \<Rightarrow> str \<Rightarrow> str \<Rightarrow> str" where
  "re_sub_class cls repl s = concat (map (\<lambda>c. if cls c then repl else [c]) s)"

text \<open>Line 30: \<^verbatim>\<open>re.sub(r"[^\w\s]", "", string)\<close>.\<close>

definition remove_punctuation :: "ucd \<Rightarrow> str \<Rightarrow> str" where
  "remove_punctuation U s = re_sub_class (\<lambda>c. \<not> (is_word_char U c \<or> is_space_char U c)) [] s"

text \<open>
  \<^verbatim>\<open>str.replace(old, new)\<close>: the occurrences of \<open>old\<close> are found from left to right,
  each search starting where the last occurrence ended (with an empty \<open>old\<close>, \<open>new\<close> is
  put before every character and at the end).
\<close>

function py_replace :: "str \<Rightarrow> str \<Rightarrow> str \<Rightarrow> str" where
  "py_replace old new s =
     (if old = [] then new @ concat (map (\<lambda>c. c # new) s)
      else if s = [] then []
      else if prefix old s then new @ py_replace old new (drop (length old) s)
      else hd s # py_replace old new (tl s))"
  by pat_completeness auto
termination
  by (relation "measure (\<lambda>(old, new, s). length s)") auto

declare py_replace.simps [simp del]

text \<open>
  Line 349: \<^verbatim>\<open>re.sub(r"(\[.*?\])\n{1}", "", lyrics)\<close>. After an opening bracket (code
  point 91) the lazy \<^verbatim>\<open>.*?\<close> is tried with no character first and grows by one
  character at a time, as long as that character is not a newline; it stops at the first
  place where a closing bracket (code point 93) and a newline follow. \<open>header_end\<close> is
  given the text after the opening bracket and returns the text after the match.
\<close>

fun header_end :: "str \<Rightarrow> str option" where
  "header_end [] = None"
| "header_end (c # cs) =
     (if c = 93 \<and> cs \<noteq> [] \<and> hd cs = newline then Some (tl cs)
      else if c = newline then None
      else header_end cs)"

lemma header_end_length: "header_end cs = Some rest \<Longrightarrow> length rest < length cs"
  by (induction cs) (auto split: if_splits)

function strip_headers :: "str \<Rightarrow> str" where
  "strip_headers [] = []"
| "strip_headers (c # cs) =
     (if c = 91
      then (case header_end cs of
              Some rest \<Rightarrow> strip_headers rest
            | None \<Rightarrow> c # strip_headers cs)
      else c # strip_headers cs)"
  by pat_completeness auto
termination
  by (relation "measure length") (auto dest: header_end_length)

text \<open>Lines 348 to 352, applied to the text of the lyrics container.\<close>

definition normalize_lyrics :: "ucd \<Rightarrow> str \<Rightarrow> str" where
  "normalize_lyrics U text =
     casefold U (remove_punctuation U
       (py_replace [newline, newline] [newline] (strip_headers (nfkd U text))))"

text \<open>
  The stages as the specification words them. Collapsing doubled newlines: reading from
  the left, two newlines in a row become one, and reading goes on after them.
\<close>

fun collapse_newlines :: "str \<Rightarrow> str" where
  "collapse_newlines [] = []"
| "collapse_newlines [a] = [a]"
| "collapse_newlines (a # b # cs) =
     (if a = newline \<and> b = newline then newline # collapse_newlines cs
      else a # collapse_newlines (b # cs))"

text \<open>Stripping punctuation: the characters that are word characters or white space stay.\<close>

definition keep_words_and_spaces :: "ucd \<Rightarrow> str \<Rightarrow> str" where
  "keep_words_and_spaces U s = filter (\<lambda>c. is_word_char U c \<or> is_space_char U c) s"

text \<open>The pipeline after the collapse of the newlines.\<close>

definition finish :: "ucd \<Rightarrow> str \<Rightarrow> str" where
  "finish U s = casefold U (keep_words_and_spaces U s)"

text \<open>
  A text, given last character first, is in canonical order when no character with a
  combining class other than 0 comes right after a character with a greater class.
\<close>

fun in_order :: "ucd \<Rightarrow> str \<Rightarrow> bool" where
  "in_order U [] = True"
| "in_order U [b] = True"
| "in_order U (b # a # out) = ((ccc U b = 0 \<or> ccc U a \<le> ccc U b) \<and> in_order U (a # out))"

text \<open>
  Two facts of the Unicode Character Database. A full decomposition is decomposed to the
  end: none of its characters has a decomposition of its own. And case folding stays
  within the normalised text: the folding of a word or white-space character that has no
  decomposition consists of word or white-space characters that have no decomposition,
  have combining class 0 and are their own folding.
\<close>

definition ucd_full :: "ucd \<Rightarrow> bool" where
  "ucd_full U \<longleftrightarrow> (\<forall>c. \<forall>d\<in>set (decompose U c). decompose U d = [d])"

definition ucd_folded :: "ucd \<Rightarrow> bool" where
  "ucd_folded U \<longleftrightarrow>
     (\<forall>c. (is_word_char U c \<or> is_space_char U c) \<and> decompose U c = [c]
        \<longrightarrow> (\<forall>d\<in>set (casefold_char U c).
               (is_word_char U d \<or> is_space_char U d) \<and> decompose U d = [d]
               \<and> ccc U d = 0 \<and> casefold_char U d = [d]))"

text \<open>
  An excerpt of the Unicode Character Database, for the examples: the no-break space
  (160), the letters E and e with acute (201 and 233), the sharp s (223), the combining
  acute accent (769) and cedilla (807), and the full-width square brackets (65339 and
  65341). Every other code point above 127 is taken as a symbol with no decomposition,
  no case and combining class 0.
\<close>

definition excerpt :: ucd where
  "excerpt =
     \<lparr>u_decomposition =
        (\<lambda>c. if c = 160 then [32] else if c = 201 then [69, 769]
              else if c = 233 then [101, 769] else if c = 65339 then [91]
              else if c = 65341 then [93] else [c]),
      u_combining = (\<lambda>c. if c = 769 then 230 else if c = 807 then 202 else 0),
      u_alnum = (\<lambda>c. c = 201 \<or> c = 223 \<or> c = 233),
      u_space = (\<lambda>c. c = 160),
      u_casefold = (\<lambda>c. if c = 201 then [233] else if c = 223 then [115, 115] else [c])\<rparr>"

section \<open>Entities and the registries\<close>

text \<open>
  Objects live in two heaps, one of artists and one of songs; a reference is an index
  into its heap, and a new object is put at the end. The class dictionaries
  \<^verbatim>\<open>Artist._artists\<close> and \<^verbatim>\<open>Song._songs\<close> map an id to the reference of the object
  made for it. The state of the process also has the requests sent so far and the files
  on disk, by path.
\<close>

type_synonym ref = nat

record Artist =
  a_id :: int
  a_name :: str
  a_url :: str
  a_songs :: "ref list"
  a_featured_on :: "ref list"

record Song =
  s_id :: int
  s_title :: str
  s_full_title :: str
  s_url :: str
  s_artist :: ref
  s_featured_artists :: "ref list"
  s_lyrics :: "str option"

text \<open>
  The JSON document \<^verbatim>\<open>Artist.save\<close> writes: the artist's keys, the time stamp (a
  float \<open>m * 2 ^ e\<close>, given by \<open>(m, e)\<close>) and the two lists of song dictionaries, each
  with the key \<^verbatim>\<open>lyrics\<close> (a string or \<^verbatim>\<open>null\<close>). \<^verbatim>\<open>json.dump\<close> and
  \<^verbatim>\<open>json.load\<close> are taken to give the document back as it was.
\<close>

type_synonym pyfloat = "int \<times> int"

record saved_song = song_data +
  sd_lyrics :: "str option"

record artist_file = artist_data +
  af_time :: pyfloat
  af_songs :: "saved_song list"
  af_featured_on :: "saved_song list"

record world =
  artist_objs :: "Artist list"
  song_objs :: "Song list"
  artists_dict :: "int \<rightharpoonup> ref"
  songs_dict :: "int \<rightharpoonup> ref"
  requested :: "str list"
  files :: "str \<rightharpoonup> artist_file"

text \<open>A process that has just started, on a given disk.\<close>

definition fresh :: "(str \<rightharpoonup> artist_file) \<Rightarrow> world" where
  "fresh disk =
     \<lparr>artist_objs = [], song_objs = [], artists_dict = Map.empty, songs_dict = Map.empty,
      requested = [], files = disk\<rparr>"

text \<open>Lines 46 to 59: \<^verbatim>\<open>Artist.from_data\<close>.\<close>

definition Artist_from_data :: "world \<Rightarrow> 'a artist_data_scheme \<Rightarrow> world \<times> ref" where
  "Artist_from_data st data =
     (case artists_dict st (ad_id data) of
        Some r \<Rightarrow> (st, r)
      | None \<Rightarrow>
          (let r = length (artist_objs st);
               new = \<lparr>a_id = ad_id data, a_name = ad_name data, a_url = ad_url data,
                      a_songs = [], a_featured_on = []\<rparr>
           in (st\<lparr>artist_objs := artist_objs st @ [new],
                   artists_dict := (artists_dict st)(ad_id data \<mapsto> r)\<rparr>, r)))"

text \<open>Lines 113 to 115: the featured artists of a new song, in the order of the data.\<close>

fun featured_from_data :: "world \<Rightarrow> artist_data list \<Rightarrow> world \<times> ref list" where
  "featured_from_data st [] = (st, [])"
| "featured_from_data st (artist_data # rest) =
     (case Artist_from_data st artist_data of
        (st1, r) \<Rightarrow>
          (case featured_from_data st1 rest of
             (st2, rs) \<Rightarrow> (st2, r # rs)))"

text \<open>Line 118, \<^verbatim>\<open>song.artist.songs.append(song)\<close>, and line 120 for one artist.\<close>

definition append_song :: "ref \<Rightarrow> ref \<Rightarrow> world \<Rightarrow> world" where
  "append_song a r st =
     st\<lparr>artist_objs :=
          (artist_objs st)[a := (artist_objs st ! a)\<lparr>a_songs := a_songs (artist_objs st ! a) @ [r]\<rparr>]\<rparr>"

definition append_featured_on :: "ref \<Rightarrow> ref \<Rightarrow> world \<Rightarrow> world" where
  "append_featured_on a r st =
     st\<lparr>artist_objs :=
          (artist_objs st)[a := (artist_objs st ! a)
             \<lparr>a_featured_on := a_featured_on (artist_objs st ! a) @ [r]\<rparr>]\<rparr>"

text \<open>Lines 119 and 120: the loop over the featured artists of the new song.\<close>

fun link_featured :: "ref \<Rightarrow> world \<Rightarrow> ref list \<Rightarrow> world" where
  "link_featured r st [] = st"
| "link_featured r st (featured_artist # rest) =
     link_featured r (append_featured_on featured_artist r st) rest"

text \<open>Lines 100 to 122: \<^verbatim>\<open>Song.from_data\<close>.\<close>

definition Song_from_data :: "ucd \<Rightarrow> world \<Rightarrow> 'a song_data_scheme \<Rightarrow> world \<times> ref" where
  "Song_from_data U st data =
     (case songs_dict st (sd_id data) of
        Some r \<Rightarrow> (st, r)
      | None \<Rightarrow>
          (case Artist_from_data st (sd_primary_artist data) of
             (st1, a) \<Rightarrow>
               (case featured_from_data st1 (sd_featured_artists data) of
                  (st2, fs) \<Rightarrow>
                    (let r = length (song_objs st2);
                         new = \<lparr>s_id = sd_id data, s_title = nfkd U (sd_title data),
                                s_full_title = nfkd U (sd_full_title data), s_url = sd_url data,
                                s_artist = a, s_featured_artists = fs, s_lyrics = None\<rparr>;
                         st3 = st2\<lparr>song_objs := song_objs st2 @ [new]\<rparr>;
                         st4 = append_song a r st3;
                         st5 = link_featured r st4 fs
                     in (st5\<lparr>songs_dict := (songs_dict st5)(sd_id data \<mapsto> r)\<rparr>, r)))))"

text \<open>The assignment \<^verbatim>\<open>song.lyrics = v\<close>.\<close>

definition set_lyrics :: "ref \<Rightarrow> str option \<Rightarrow> world \<Rightarrow> world" where
  "set_lyrics r v st =
     st\<lparr>song_objs := (song_objs st)[r := (song_objs st ! r)\<lparr>s_lyrics := v\<rparr>]\<rparr>"

text \<open>
  The calls that change the heaps and the dictionaries, and a run of such calls: an
  artist or a song is decoded, or the lyrics of a song are assigned (by the fetcher or by
  the loader).
\<close>

datatype call =
    Decode_artist artist_data
  | Decode_song song_data
  | Assign_lyrics ref "str option"

fun run_call :: "ucd \<Rightarrow> world \<Rightarrow> call \<Rightarrow> world" where
  "run_call U st (Decode_artist d) = fst (Artist_from_data st d)"
| "run_call U st (Decode_song d) = fst (Song_from_data U st d)"
| "run_call U st (Assign_lyrics r v) = set_lyrics r v st"

definition run_calls :: "ucd \<Rightarrow> world \<Rightarrow> call list \<Rightarrow> world" where
  "run_calls U st cs = foldl (run_call U) st cs"

text \<open>
  What a later state keeps of an earlier one: every object stays where it is with its id
  and the fields the constructor was given, and every entry of the dictionaries stays.
\<close>

definition keeps :: "world \<Rightarrow> world \<Rightarrow> bool" where
  "keeps st st' \<longleftrightarrow>
     length (artist_objs st) \<le> length (artist_objs st')
     \<and> length (song_objs st) \<le> length (song_objs st')
     \<and> (\<forall>r<length (artist_objs st).
          a_id (artist_objs st' ! r) = a_id (artist_objs st ! r)
          \<and> a_name (artist_objs st' ! r) = a_name (artist_objs st ! r)
          \<and> a_url (artist_objs st' ! r) = a_url (artist_objs st ! r))
     \<and> (\<forall>r<length (song_objs st).
          s_id (song_objs st' ! r) = s_id (song_objs st ! r)
          \<and> s_title (song_objs st' ! r) = s_title (song_objs st ! r)
          \<and> s_full_title (song_objs st' ! r) = s_full_title (song_objs st ! r)
          \<and> s_url (song_objs st' ! r) = s_url (song_objs st ! r)
          \<and> s_artist (song_objs st' ! r) = s_artist (song_objs st ! r)
          \<and> s_featured_artists (song_objs st' ! r) = s_featured_artists (song_objs st ! r))
     \<and> (\<forall>i r. artists_dict st i = Some r \<longrightarrow> artists_dict st' i = Some r)
     \<and> (\<forall>i r. songs_dict st i = Some r \<longrightarrow> songs_dict st' i = Some r)"

section \<open>Lyrics fetcher\<close>

text \<open>
  The outside of the program: the network gives, for a URL, the text of the page or the
  exception the request raises; the HTML parser gives, for a markup, the texts of the
  elements that \<^verbatim>\<open>div[data-lyrics-container='true']\<close> selects, in the order of the
  document, or the exception it raises.
\<close>

type_synonym network = "str \<Rightarrow> exn + str"

type_synonym selector = "str \<Rightarrow> exn + str list"

text \<open>Lines 159 to 167: the URL \<^verbatim>\<open>GeniusRequester.request\<close> builds from a path.\<close>

definition request_url :: "bool \<Rightarrow> str \<Rightarrow> str" where
  "request_url web path =
     (let path1 = (if prefix (ascii ''/'') path then tl path else path)
      in (if web then (ascii ''https://genius.com'') else (ascii ''http://api.genius.com'')) @ (ascii ''/'') @ path1)"

text \<open>Line 345: \<^verbatim>\<open>re.sub(r"(<br>)|(<br\/>)", "\n", html)\<close>.\<close>

fun br_to_newline :: "str \<Rightarrow> str" where
  "br_to_newline [] = []"
| "br_to_newline (c # cs) =
     (if prefix (ascii ''<br>'') (c # cs) then newline # br_to_newline (drop 3 cs)
      else if prefix (ascii ''<br/>'') (c # cs) then newline # br_to_newline (drop 4 cs)
      else c # br_to_newline cs)"

text \<open>
  Lines 344 to 352, the body of the \<^verbatim>\<open>try\<close>: the request (which is logged), the
  parse, the first selected element (\<^verbatim>\<open>IndexError\<close> when there is none) and the
  normalisation of its text.
\<close>

definition fetch_lyrics :: "ucd \<Rightarrow> network \<Rightarrow> selector \<Rightarrow> world \<Rightarrow> str \<Rightarrow> world \<times> (exn + str)" where
  "fetch_lyrics U net sel st url =
     (let st1 = st\<lparr>requested := requested st @ [request_url True url]\<rparr>
      in case net (request_url True url) of
           Inl e \<Rightarrow> (st1, Inl e)
         | Inr html \<Rightarrow>
             (case sel (br_to_newline html) of
                Inl e \<Rightarrow> (st1, Inl e)
              | Inr [] \<Rightarrow> (st1, Inl IndexError)
              | Inr (div_text # _) \<Rightarrow> (st1, Inr (normalize_lyrics U div_text))))"

text \<open>
  Lines 341 to 356: \<^verbatim>\<open>get_song_lyrics\<close>. The handler of line 354 catches the
  instances of \<^verbatim>\<open>Exception\<close>; any other exception goes on to the caller.
\<close>

definition get_song_lyrics :: "ucd \<Rightarrow> network \<Rightarrow> selector \<Rightarrow> world \<Rightarrow> ref \<Rightarrow> world \<times> (exn + str)" where
  "get_song_lyrics U net sel st song =
     (case s_lyrics (song_objs st ! song) of
        Some l \<Rightarrow> (st, Inr l)
      | None \<Rightarrow>
          (case fetch_lyrics U net sel st (s_url (song_objs st ! song)) of
             (st1, Inr l) \<Rightarrow> (set_lyrics song (Some l) st1, Inr l)
           | (st1, Inl e) \<Rightarrow>
               if is_Exception e then (set_lyrics song (Some []) st1, Inr [])
               else (st1, Inl e)))"

text \<open>Lines 358 to 360: \<^verbatim>\<open>get_artist_lyrics\<close>, the loop and the function.\<close>

fun lyrics_loop :: "ucd \<Rightarrow> network \<Rightarrow> selector \<Rightarrow> world \<Rightarrow> ref list \<Rightarrow> world \<times> (exn + unit)" where
  "lyrics_loop U net sel st [] = (st, Inr ())"
| "lyrics_loop U net sel st (song # rest) =
     (case get_song_lyrics U net sel st song of
        (st1, Inl e) \<Rightarrow> (st1, Inl e)
      | (st1, Inr _) \<Rightarrow> lyrics_loop U net sel st1 rest)"

definition get_artist_lyrics :: "ucd \<Rightarrow> network \<Rightarrow> selector \<Rightarrow> world \<Rightarrow> ref \<Rightarrow> world \<times> (exn + unit)" where
  "get_artist_lyrics U net sel st a =
     lyrics_loop U net sel st (a_songs (artist_objs st ! a) @ a_featured_on (artist_objs st ! a))"

section \<open>Search\<close>

text \<open>
  Line 376, the list \<^verbatim>\<open>[lyric in song.lyrics for lyric in lyrics]\<close>: with no query
  the test is never run; with a query, \<^verbatim>\<open>in\<close> on \<^verbatim>\<open>None\<close> raises
  \<^verbatim>\<open>TypeError\<close>, and on a string it is the substring test.
\<close>

fun in_tests :: "str list \<Rightarrow> str option \<Rightarrow> exn + bool list" where
  "in_tests [] l = Inr []"
| "in_tests (lyric # rest) None = Inl TypeError"
| "in_tests (lyric # rest) (Some l) =
     (case in_tests rest (Some l) of
        Inl e \<Rightarrow> Inl e
      | Inr bs \<Rightarrow> Inr (sublist lyric l # bs))"

text \<open>Line 372: \<^verbatim>\<open>all if match_all else any\<close>.\<close>

definition has_lyrics :: "bool \<Rightarrow> bool list \<Rightarrow> bool" where
  "has_lyrics match_all bs = (if match_all then list_all (\<lambda>b. b) bs else list_ex (\<lambda>b. b) bs)"

text \<open>Lines 373 to 378: the loop over the candidates; \<open>matches\<close> is the list so far.\<close>

fun search_loop :: "world \<Rightarrow> str list \<Rightarrow> bool \<Rightarrow> ref list \<Rightarrow> ref list \<Rightarrow> exn + ref list" where
  "search_loop st qs match_all matches [] = Inr matches"
| "search_loop st qs match_all matches (song # rest) =
     (if s_lyrics (song_objs st ! song) = Some [] then search_loop st qs match_all matches rest
      else (case in_tests qs (s_lyrics (song_objs st ! song)) of
              Inl e \<Rightarrow> Inl e
            | Inr bs \<Rightarrow>
                if has_lyrics match_all bs
                then search_loop st qs match_all (matches @ [song]) rest
                else search_loop st qs match_all matches rest))"

text \<open>The argument \<^verbatim>\<open>lyrics\<close> is one string or a list of strings (line 363).\<close>

datatype lyrics_arg = One str | Many "str list"

definition normalize_queries :: "ucd \<Rightarrow> lyrics_arg \<Rightarrow> str list" where
  "normalize_queries U arg =
     map (\<lambda>lyric. remove_punctuation U (casefold U lyric))
       (case arg of One s \<Rightarrow> [s] | Many l \<Rightarrow> l)"

definition all_songs :: "world \<Rightarrow> ref \<Rightarrow> bool \<Rightarrow> ref list" where
  "all_songs st a featured =
     a_songs (artist_objs st ! a) @ (if featured then a_featured_on (artist_objs st ! a) else [])"

text \<open>Lines 362 to 378: \<^verbatim>\<open>search_artist_lyrics\<close>.\<close>

definition search_artist_lyrics :: "ucd \<Rightarrow> world \<Rightarrow> ref \<Rightarrow> lyrics_arg \<Rightarrow> bool \<Rightarrow> bool \<Rightarrow> exn + ref list" where
  "search_artist_lyrics U st a arg featured match_all =
     search_loop st (normalize_queries U arg) match_all [] (all_songs st a featured)"

text \<open>
  The match of the specification: with \<open>match_all\<close> every query is a substring of the
  lyrics, otherwise at least one is.
\<close>

definition matches_queries :: "bool \<Rightarrow> str list \<Rightarrow> str \<Rightarrow> bool" where
  "matches_queries match_all qs l =
     (if match_all then list_all (\<lambda>q. sublist q l) qs else list_ex (\<lambda>q. sublist q l) qs)"

section \<open>Persistence\<close>

text \<open>Lines 64 to 69 and 127 to 139: \<^verbatim>\<open>Artist.to_dict\<close> and \<^verbatim>\<open>Song.to_dict\<close>.\<close>

definition Artist_to_dict :: "Artist \<Rightarrow> artist_data" where
  "Artist_to_dict self = \<lparr>ad_id = a_id self, ad_name = a_name self, ad_url = a_url self\<rparr>"

definition Song_to_dict :: "world \<Rightarrow> Song \<Rightarrow> saved_song" where
  "Song_to_dict st self =
     \<lparr>sd_id = s_id self, sd_title = s_title self, sd_full_title = s_full_title self,
      sd_url = s_url self,
      sd_primary_artist = Artist_to_dict (artist_objs st ! s_artist self),
      sd_featured_artists =
        map (\<lambda>featured_artist. Artist_to_dict (artist_objs st ! featured_artist))
          (s_featured_artists self),
      sd_lyrics = s_lyrics self\<rparr>"

text \<open>
  Lines 71 to 83: \<^verbatim>\<open>Artist.save\<close>, with the value \<open>now\<close> of \<^verbatim>\<open>time.time()\<close>; the
  document is put on the disk at the path.
\<close>

definition Artist_save :: "world \<Rightarrow> ref \<Rightarrow> pyfloat \<Rightarrow> str \<Rightarrow> world" where
  "Artist_save st self now file_path =
     (let a = artist_objs st ! self;
          obj = \<lparr>ad_id = a_id a, ad_name = a_name a, ad_url = a_url a, af_time = now,
                 af_songs = map (\<lambda>song. Song_to_dict st (song_objs st ! song)) (a_songs a),
                 af_featured_on =
                   map (\<lambda>song. Song_to_dict st (song_objs st ! song)) (a_featured_on a)\<rparr>
      in st\<lparr>files := (files st)(file_path \<mapsto> obj)\<rparr>)"

text \<open>\<^verbatim>\<open>str\<close> of an integer, and the path \<^verbatim>\<open>f"{save_dir}/{artist_id}.json"\<close>.\<close>

fun digits :: "nat \<Rightarrow> str" where
  "digits n =
     (if n < 10 then [48 + int n] else digits (n div 10) @ [48 + int (n mod 10)])"

declare digits.simps [simp del]

definition str_int :: "int \<Rightarrow> str" where
  "str_int i = (if i < 0 then 45 # digits (nat (- i)) else digits (nat i))"

definition json_path :: "str \<Rightarrow> int \<Rightarrow> str" where
  "json_path save_dir artist_id = save_dir @ (ascii ''/'') @ str_int artist_id @ (ascii ''.json'')"

text \<open>Lines 380 to 386: \<^verbatim>\<open>save_artist\<close> and \<^verbatim>\<open>is_id_saved\<close>.\<close>

definition save_artist :: "world \<Rightarrow> ref \<Rightarrow> pyfloat \<Rightarrow> str \<Rightarrow> world" where
  "save_artist st a now save_dir =
     Artist_save st a now (json_path save_dir (a_id (artist_objs st ! a)))"

definition is_id_saved :: "world \<Rightarrow> int \<Rightarrow> str \<Rightarrow> bool" where
  "is_id_saved st artist_id save_dir \<longleftrightarrow> files st (json_path save_dir artist_id) \<noteq> None"

text \<open>Lines 393 to 395: the loop over the saved songs.\<close>

fun load_songs :: "ucd \<Rightarrow> world \<Rightarrow> saved_song list \<Rightarrow> world" where
  "load_songs U st [] = st"
| "load_songs U st (song_json # rest) =
     (case Song_from_data U st song_json of
        (st1, song) \<Rightarrow> load_songs U (set_lyrics song (sd_lyrics song_json) st1) rest)"

text \<open>
  Lines 388 to 396: \<^verbatim>\<open>load_artist\<close>; \<^verbatim>\<open>open\<close> raises
  \<^verbatim>\<open>FileNotFoundError\<close> when there is no file at the path.
\<close>

definition load_artist :: "ucd \<Rightarrow> world \<Rightarrow> int \<Rightarrow> str \<Rightarrow> world \<times> (exn + ref)" where
  "load_artist U st artist_id save_dir =
     (case files st (json_path save_dir artist_id) of
        None \<Rightarrow> (st, Inl FileNotFoundError)
      | Some artist_json \<Rightarrow>
          (case Artist_from_data st artist_json of
             (st1, a) \<Rightarrow>
               (load_songs U st1 (af_songs artist_json @ af_featured_on artist_json), Inr a)))"

text \<open>
  What the round trip compares of a song: its id, title, full title and url, the id of
  its primary artist, the ids of its featured artists, and its lyrics.
\<close>

definition song_view ::
  "world \<Rightarrow> ref \<Rightarrow> int \<times> str \<times> str \<times> str \<times> int \<times> int list \<times> str option" where
  "song_view st r =
     (let s = song_objs st ! r
      in (s_id s, s_title s, s_full_title s, s_url s, a_id (artist_objs st ! s_artist s),
          map (\<lambda>f. a_id (artist_objs st ! f)) (s_featured_artists s), s_lyrics s))"

text \<open>
  The states the program can be in. The dictionaries and the heaps agree: an id is
  mapped to an object with that id, and every object is the one its id is mapped to.
\<close>

definition wf_dicts :: "world \<Rightarrow> bool" where
  "wf_dicts st \<longleftrightarrow>
     (\<forall>i r. artists_dict st i = Some r
        \<longrightarrow> r < length (artist_objs st) \<and> a_id (artist_objs st ! r) = i)
     \<and> (\<forall>r<length (artist_objs st). artists_dict st (a_id (artist_objs st ! r)) = Some r)
     \<and> (\<forall>i r. songs_dict st i = Some r
        \<longrightarrow> r < length (song_objs st) \<and> s_id (song_objs st ! r) = i)
     \<and> (\<forall>r<length (song_objs st). songs_dict st (s_id (song_objs st ! r)) = Some r)"

text \<open>The artists of every song are objects of the heap.\<close>

definition wf_refs :: "world \<Rightarrow> bool" where
  "wf_refs st \<longleftrightarrow>
     (\<forall>r<length (song_objs st).
        s_artist (song_objs st ! r) < length (artist_objs st)
        \<and> (\<forall>f\<in>set (s_featured_artists (song_objs st ! r)). f < length (artist_objs st)))"

text \<open>
  The lists of an artist hold the songs that name the artist: \<^verbatim>\<open>songs\<close> holds, once
  each, the songs whose primary artist it is, and \<^verbatim>\<open>featured_on\<close> the songs that
  feature it.
\<close>

definition wf_links :: "world \<Rightarrow> bool" where
  "wf_links st \<longleftrightarrow>
     (\<forall>a<length (artist_objs st).
        distinct (a_songs (artist_objs st ! a))
        \<and> set (a_songs (artist_objs st ! a))
            = {r. r < length (song_objs st) \<and> s_artist (song_objs st ! r) = a}
        \<and> set (a_featured_on (artist_objs st ! a))
            = {r. r < length (song_objs st) \<and> a \<in> set (s_featured_artists (song_objs st ! r))})"

text \<open>The titles are normalised.\<close>

definition wf_titles :: "ucd \<Rightarrow> world \<Rightarrow> bool" where
  "wf_titles U st \<longleftrightarrow>
     (\<forall>r<length (song_objs st).
        nfkd U (s_title (song_objs st ! r)) = s_title (song_objs st ! r)
        \<and> nfkd U (s_full_title (song_objs st ! r)) = s_full_title (song_objs st ! r))"

definition wf_world :: "ucd \<Rightarrow> world \<Rightarrow> bool" where
  "wf_world U st \<longleftrightarrow> wf_dicts st \<and> wf_refs st \<and> wf_links st \<and> wf_titles U st"

text \<open>
  The relation between the state that was saved and a state of the process that loads:
  every song the loading process has registered is the copy of the song with the same id
  in the saved state, with the same view.
\<close>

definition agree :: "world \<Rightarrow> world \<Rightarrow> bool" where
  "agree st L \<longleftrightarrow>
     (\<forall>j q. songs_dict L j = Some q
        \<longrightarrow> (\<exists>r. songs_dict st j = Some r \<and> song_view L q = song_view st r))"

section \<open>Example data\<close>

text \<open>
  Two artists and two songs, each artist primary on one song and featured on the other;
  the state after both songs were decoded, before any lyrics were fetched; and the state
  after the lyrics of the first song were fetched and the fetch of the second failed.
\<close>

definition al :: artist_data where
  "al = \<lparr>ad_id = 3, ad_name = ascii ''Al'', ad_url = ascii ''https://genius.com/artists/Al''\<rparr>"

definition bea :: artist_data where
  "bea = \<lparr>ad_id = 7, ad_name = ascii ''Bea'', ad_url = ascii ''https://genius.com/artists/Bea''\<rparr>"

definition song_one :: song_data where
  "song_one =
     \<lparr>sd_id = 11, sd_title = ascii ''One'', sd_full_title = ascii ''One by Al (Ft. Bea)'',
      sd_url = ascii ''https://genius.com/Al-one-lyrics'', sd_primary_artist = al,
      sd_featured_artists = [bea]\<rparr>"

definition song_two :: song_data where
  "song_two =
     \<lparr>sd_id = 12, sd_title = ascii ''Two'', sd_full_title = ascii ''Two by Bea (Ft. Al)'',
      sd_url = ascii ''https://genius.com/Bea-two-lyrics'', sd_primary_artist = bea,
      sd_featured_artists = [al]\<rparr>"

definition unfetched_world :: world where
  "unfetched_world =
     fst (Song_from_data excerpt (fst (Song_from_data excerpt (fresh Map.empty) song_one)) song_two)"

definition fetched_world :: world where
  "fetched_world = set_lyrics 1 (Some []) (set_lyrics 0 (Some (ascii ''oh la la'')) unfetched_world)"

text \<open>
  Records with the ids of \<open>al\<close> and of \<open>song_one\<close> and other fields, and calls that
  come after a first decoding.
\<close>

definition al_renamed :: artist_data where
  "al_renamed = \<lparr>ad_id = 3, ad_name = ascii ''Alfred'', ad_url = ascii ''https://genius.com/artists/Alfred''\<rparr>"

definition song_one_retitled :: song_data where
  "song_one_retitled =
     \<lparr>sd_id = 11, sd_title = ascii ''Uno'', sd_full_title = ascii ''Uno by Bea'',
      sd_url = ascii ''https://genius.com/Bea-uno-lyrics'', sd_primary_artist = bea,
      sd_featured_artists = []\<rparr>"

definition later_calls :: "call list" where
  "later_calls = [Decode_song song_two, Assign_lyrics 0 (Some (ascii ''oh'')), Decode_artist al_renamed]"

text \<open>A network that is down, and a parser that finds no lyrics container.\<close>

definition network_down :: network where
  "network_down url = Inl RequestError"

definition no_container :: selector where
  "no_container html = Inr []"

section \<open>Strings: properties\<close>

lemma ascii_inject [simp]: "ascii s = ascii t \<longleftrightarrow> s = t"
  by (simp add: ascii_def inj_map_eq_map inj_of_char)

section \<open>Resolver: properties\<close>

lemma scan_featured_find:
  "scan_featured name as = map_option ad_id (List.find (\<lambda>a. ad_name a = name) as)"
  by (induction as) auto

lemma find_append_if:
  "List.find P (xs @ ys) = (case List.find P xs of Some x \<Rightarrow> Some x | None \<Rightarrow> List.find P ys)"
  by (induction xs) auto

lemma scan_songs_find:
  "scan_songs name song songs =
     (case List.find (\<lambda>a. ad_name a = name) (scan_order songs) of
        Some a \<Rightarrow> Returned (ad_id a)
      | None \<Rightarrow> Fell_through (if songs = [] then song else Some (last songs)))"
proof (induction songs arbitrary: song)
  case Nil
  show ?case by (simp add: scan_order_def)
next
  case (Cons s rest)
  have so: "scan_order (s # rest) = sd_primary_artist s # sd_featured_artists s @ scan_order rest"
    by (simp add: scan_order_def)
  show ?case
  proof (cases "ad_name (sd_primary_artist s) = name")
    case True
    then show ?thesis by (simp add: so)
  next
    case False
    show ?thesis
    proof (cases "List.find (\<lambda>a. ad_name a = name) (sd_featured_artists s)")
      case None
      with False Cons.IH [of "Some s"] show ?thesis
        by (simp add: so find_append_if scan_featured_find split: option.splits)
    next
      case (Some a)
      with False show ?thesis
        by (simp add: so find_append_if scan_featured_find)
    qed
  qed
qed

text \<open>
  Claim C3. The first tier of \<^verbatim>\<open>get_artist_id\<close> scans the songs in page order,
  each song's primary artist before its featured artists, compares names by equality, and
  returns the id of the first record whose name is the canonical name: the result of the
  function is the id of the first matching record of \<open>scan_order\<close>, whatever the search
  request would give.
\<close>

theorem get_artist_id_first_match:
  "List.find (\<lambda>a. ad_name a = name) (scan_order songs) = Some a
   \<Longrightarrow> get_artist_id name songs search = Inr (ad_id a)"
  by (simp add: get_artist_id_def scan_songs_find)

text \<open>
  A page of two songs: the name \<open>Bea\<close> is carried by a featured artist of the first
  song (id 7) and by the primary artist of the second (id 9); the first one is returned.
\<close>

theorem get_artist_id_first_match_witness:
  "List.find (\<lambda>a. ad_name a = (ascii ''Bea''))
     (scan_order
       [\<lparr>sd_id = 1, sd_title = ascii ''t'', sd_full_title = ascii ''t by Al'', sd_url = ascii ''u1'',
         sd_primary_artist = \<lparr>ad_id = 3, ad_name = ascii ''Al'', ad_url = ascii ''a3''\<rparr>,
         sd_featured_artists = [\<lparr>ad_id = 7, ad_name = ascii ''Bea'', ad_url = ascii ''a7''\<rparr>]\<rparr>,
        \<lparr>sd_id = 2, sd_title = ascii ''v'', sd_full_title = ascii ''v by Bea'', sd_url = ascii ''u2'',
         sd_primary_artist = \<lparr>ad_id = 9, ad_name = ascii ''Bea'', ad_url = ascii ''a9''\<rparr>,
         sd_featured_artists = []\<rparr>])
     = Some \<lparr>ad_id = 7, ad_name = ascii ''Bea'', ad_url = ascii ''a7''\<rparr>
   \<and> get_artist_id (ascii ''Bea'')
       [\<lparr>sd_id = 1, sd_title = ascii ''t'', sd_full_title = ascii ''t by Al'', sd_url = ascii ''u1'',
         sd_primary_artist = \<lparr>ad_id = 3, ad_name = ascii ''Al'', ad_url = ascii ''a3''\<rparr>,
         sd_featured_artists = [\<lparr>ad_id = 7, ad_name = ascii ''Bea'', ad_url = ascii ''a7''\<rparr>]\<rparr>,
        \<lparr>sd_id = 2, sd_title = ascii ''v'', sd_full_title = ascii ''v by Bea'', sd_url = ascii ''u2'',
         sd_primary_artist = \<lparr>ad_id = 9, ad_name = ascii ''Bea'', ad_url = ascii ''a9''\<rparr>,
         sd_featured_artists = []\<rparr>]
       (Inl RequestError) = Inr 7"
proof -
  let ?songs = "[\<lparr>sd_id = 1, sd_title = ascii ''t'', sd_full_title = ascii ''t by Al'', sd_url = ascii ''u1'',
         sd_primary_artist = \<lparr>ad_id = 3, ad_name = ascii ''Al'', ad_url = ascii ''a3''\<rparr>,
         sd_featured_artists = [\<lparr>ad_id = 7, ad_name = ascii ''Bea'', ad_url = ascii ''a7''\<rparr>]\<rparr>,
        \<lparr>sd_id = 2, sd_title = ascii ''v'', sd_full_title = ascii ''v by Bea'', sd_url = ascii ''u2'',
         sd_primary_artist = \<lparr>ad_id = 9, ad_name = ascii ''Bea'', ad_url = ascii ''a9''\<rparr>,
         sd_featured_artists = []\<rparr>]"
  have h: "List.find (\<lambda>a. ad_name a = (ascii ''Bea'')) (scan_order ?songs)
             = Some \<lparr>ad_id = 7, ad_name = ascii ''Bea'', ad_url = ascii ''a7''\<rparr>"
    by (simp add: scan_order_def)
  from get_artist_id_first_match [OF h, of "Inl RequestError"] h show ?thesis
    by simp
qed

text \<open>
  When the first tier meets no match and the page has at least one song, the stale
  \<^verbatim>\<open>song\<close> of line 277 has featured artists that the first tier already refused, so
  the second tier decides on the primary artists of the hits alone and raises
  \<^verbatim>\<open>ValueError\<close> when none matches.
\<close>

lemma scan_featured_None_iff:
  "scan_featured name as = None \<longleftrightarrow> (\<forall>a\<in>set as. ad_name a \<noteq> name)"
  by (induction as) auto

lemma scan_hits_stale:
  "scan_featured name (sd_featured_artists s) = None
   \<Longrightarrow> scan_hits name (Some s) hits =
       (case List.find (\<lambda>h. ad_name (sd_primary_artist h) = name) hits of
          Some h \<Rightarrow> Inr (ad_id (sd_primary_artist h))
        | None \<Rightarrow> Inl ValueError)"
  by (induction hits) auto

lemma scan_order_last:
  "songs \<noteq> [] \<Longrightarrow> set (sd_featured_artists (last songs)) \<subseteq> set (scan_order songs)"
  by (induction songs) (auto simp: scan_order_def)

lemma get_artist_id_second_tier:
  assumes "songs \<noteq> []"
    and "List.find (\<lambda>a. ad_name a = name) (scan_order songs) = None"
  shows "get_artist_id name songs (Inr hits) =
           (case List.find (\<lambda>h. ad_name (sd_primary_artist h) = name) hits of
              Some h \<Rightarrow> Inr (ad_id (sd_primary_artist h))
            | None \<Rightarrow> Inl ValueError)"
proof -
  from assms(2) have "\<forall>a\<in>set (scan_order songs). ad_name a \<noteq> name"
    by (simp add: find_None_iff)
  with scan_order_last [OF assms(1)]
  have "scan_featured name (sd_featured_artists (last songs)) = None"
    by (auto simp: scan_featured_None_iff)
  then show ?thesis
    using assms by (simp add: get_artist_id_def scan_songs_find scan_hits_stale)
qed

text \<open>
  Claim C4. The function is two-tiered and is meant to fail with the lookup error
  (\<^verbatim>\<open>ValueError\<close> in the code) exactly when neither tier finds a match. On a page
  with no song the loop variable \<^verbatim>\<open>song\<close> that line 277 reads was never bound: with
  an empty \<^verbatim>\<open>artist_songs\<close> payload and one search hit whose primary artist has another
  name, the code raises \<^verbatim>\<open>UnboundLocalError\<close>, not \<^verbatim>\<open>ValueError\<close>; a second hit
  that does match is never reached.
\<close>

theorem get_artist_id_empty_page:
  "get_artist_id (ascii ''Al'') []
     (Inr [\<lparr>sd_id = 5, sd_title = ascii ''w'', sd_full_title = ascii ''w by Cy'', sd_url = ascii ''u5'',
            sd_primary_artist = \<lparr>ad_id = 4, ad_name = ascii ''Cy'', ad_url = ascii ''a4''\<rparr>,
            sd_featured_artists = []\<rparr>,
           \<lparr>sd_id = 6, sd_title = ascii ''x'', sd_full_title = ascii ''x by Al'', sd_url = ascii ''u6'',
            sd_primary_artist = \<lparr>ad_id = 3, ad_name = ascii ''Al'', ad_url = ascii ''a3''\<rparr>,
            sd_featured_artists = []\<rparr>])
   = Inl UnboundLocalError"
  by (simp add: get_artist_id_def)

section \<open>Lyrics normalisation: properties\<close>

subsection \<open>Canonical order\<close>

lemma put_mark_set: "set (put_mark U c out) = insert c (set out)"
  by (induction out) auto

lemma foldl_put_mark_set:
  "set (foldl (\<lambda>out c. put_mark U c out) acc s) = set acc \<union> set s"
  by (induction s arbitrary: acc) (auto simp: put_mark_set)

lemma canonical_order_set: "set (canonical_order U s) = set s"
  by (simp add: canonical_order_def foldl_put_mark_set)

lemma nfkd_set: "set (nfkd U s) = (\<Union>c\<in>set s. set (decompose U c))"
  by (simp add: nfkd_def canonical_order_set)

lemma put_mark_in_order: "in_order U out \<Longrightarrow> in_order U (put_mark U c out)"
proof (induction U out rule: in_order.induct)
  case (1 U)
  show ?case by simp
next
  case (2 U b)
  show ?case by auto
next
  case (3 U b a out)
  then show ?case by auto
qed

lemma put_mark_fixed: "in_order U (c # out) \<Longrightarrow> put_mark U c out = c # out"
  by (cases out) auto

lemma in_order_tl: "in_order U (c # out) \<Longrightarrow> in_order U out"
  by (cases out) auto

lemma foldl_in_order:
  "in_order U acc \<Longrightarrow> in_order U (foldl (\<lambda>out c. put_mark U c out) acc s)"
  by (induction s arbitrary: acc) (auto simp: put_mark_in_order)

lemma foldl_put_mark_fixed:
  "in_order U (rev s) \<Longrightarrow> foldl (\<lambda>out c. put_mark U c out) [] s = rev s"
proof (induction s rule: rev_induct)
  case Nil
  show ?case by simp
next
  case (snoc x xs)
  then have o: "in_order U (x # rev xs)" by simp
  then have "in_order U (rev xs)" by (rule in_order_tl)
  with snoc.IH have "foldl (\<lambda>out c. put_mark U c out) [] xs = rev xs" by simp
  with o show ?case by (simp add: put_mark_fixed)
qed

lemma canonical_order_fixed: "in_order U (rev s) \<Longrightarrow> canonical_order U s = s"
  by (simp add: canonical_order_def foldl_put_mark_fixed)

lemma canonical_order_idem:
  "canonical_order U (canonical_order U s) = canonical_order U s"
proof -
  have "in_order U (foldl (\<lambda>out c. put_mark U c out) [] s)"
    by (rule foldl_in_order) simp
  then have "in_order U (rev (canonical_order U s))"
    by (simp add: canonical_order_def)
  then show ?thesis by (rule canonical_order_fixed)
qed

lemma starters_in_order: "\<forall>c\<in>set out. ccc U c = 0 \<Longrightarrow> in_order U out"
  by (induction U out rule: in_order.induct) auto

lemma canonical_order_starters: "\<forall>c\<in>set s. ccc U c = 0 \<Longrightarrow> canonical_order U s = s"
  by (rule canonical_order_fixed, rule starters_in_order) simp

lemma decompose_fixed:
  "\<forall>c\<in>set s. decompose U c = [c] \<Longrightarrow> concat (map (decompose U) s) = s"
  by (induction s) auto

text \<open>With full decompositions, NFKD changes nothing in a text it has normalised.\<close>

lemma nfkd_idem:
  assumes "ucd_full U"
  shows "nfkd U (nfkd U s) = nfkd U s"
proof -
  have "\<forall>d\<in>set (nfkd U s). decompose U d = [d]"
    using assms by (auto simp: nfkd_set ucd_full_def)
  then have "concat (map (decompose U) (nfkd U s)) = nfkd U s"
    by (rule decompose_fixed)
  then have "nfkd U (nfkd U s) = canonical_order U (nfkd U s)"
    by (simp add: nfkd_def)
  then show ?thesis by (simp add: nfkd_def canonical_order_idem)
qed

subsection \<open>The stages\<close>

lemma py_replace_collapse:
  "py_replace [newline, newline] [newline] s = collapse_newlines s"
proof (induction s rule: collapse_newlines.induct)
  case (3 a b cs)
  then show ?case
    by (subst py_replace.simps) auto
next
  case 1
  show ?case by (subst py_replace.simps) simp
next
  case (2 v)
  show ?case
    by (subst py_replace.simps, simp, subst py_replace.simps, simp)
qed

lemma remove_punctuation_filter: "remove_punctuation U s = keep_words_and_spaces U s"
  by (induction s) (auto simp: remove_punctuation_def re_sub_class_def keep_words_and_spaces_def)

lemma normalize_lyrics_stages:
  "normalize_lyrics U text = finish U (collapse_newlines (strip_headers (nfkd U text)))"
  by (simp add: normalize_lyrics_def finish_def py_replace_collapse remove_punctuation_filter)









lemma header_end_subset: "header_end cs = Some rest \<Longrightarrow> set rest \<subseteq> set cs"
proof (induction cs)
  case Nil
  then show ?case by simp
next
  case (Cons c cs)
  show ?case
  proof (cases "c = 93 \<and> cs \<noteq> [] \<and> hd cs = newline")
    case True
    with Cons.prems have "rest = tl cs" by simp
    with True show ?thesis by (auto dest: list.set_sel(2))
  next
    case False
    with Cons.prems have "header_end cs = Some rest" by (auto split: if_splits)
    with Cons.IH show ?thesis by auto
  qed
qed

lemma strip_headers_subset: "set (strip_headers s) \<subseteq> set s"
proof (induction s rule: strip_headers.induct)
  case 1
  show ?case by simp
next
  case (2 c cs)
  show ?case
  proof (cases "c = 91")
    case False
    with 2 show ?thesis by auto
  next
    case True
    show ?thesis
    proof (cases "header_end cs")
      case None
      with True 2 show ?thesis by auto
    next
      case (Some rest)
      with True 2 have "set (strip_headers rest) \<subseteq> set rest" by simp
      moreover from Some have "set rest \<subseteq> set cs" by (rule header_end_subset)
      ultimately show ?thesis using True Some by auto
    qed
  qed
qed

lemma bracket_not_kept: "\<not> (is_word_char U 91 \<or> is_space_char U 91)"
  by (simp add: is_word_char_def is_space_char_def)

lemma strip_headers_no_bracket: "91 \<notin> set s \<Longrightarrow> strip_headers s = s"
  by (induction s) auto

lemma collapse_subset: "set (collapse_newlines s) \<subseteq> set s"
  by (induction s rule: collapse_newlines.induct) auto

lemma collapse_length: "length (collapse_newlines s) \<le> length s"
  by (induction s rule: collapse_newlines.induct) auto

lemma finish_fixed:
  "\<forall>c\<in>set u. (is_word_char U c \<or> is_space_char U c) \<and> casefold_char U c = [c]
   \<Longrightarrow> finish U u = u"
  by (induction u) (auto simp: finish_def keep_words_and_spaces_def casefold_def)

lemma collapse_fixed_iff:
  "collapse_newlines s = s \<longleftrightarrow> \<not> sublist [newline, newline] s"
proof (induction s rule: collapse_newlines.induct)
  case (3 a b cs)
  show ?case
  proof (cases "a = newline \<and> b = newline")
    case True
    have "collapse_newlines cs \<noteq> newline # cs"
    proof
      assume "collapse_newlines cs = newline # cs"
      then have "length (collapse_newlines cs) = Suc (length cs)" by simp
      with collapse_length [of cs] show False by simp
    qed
    then have "newline # collapse_newlines cs \<noteq> newline # newline # cs"
      by simp
    with True show ?thesis by (auto simp: sublist_Cons_right)
  next
    case False
    with False 3 show ?thesis by (auto simp: sublist_Cons_right)
  qed
next
  case 1
  show ?case by simp
next
  case (2 v)
  show ?case by (auto simp: sublist_Cons_right)
qed

text \<open>The characters of a normalised text, in a database with the two facts.\<close>

lemma normalize_chars:
  assumes "ucd_full U" and "ucd_folded U" and "d \<in> set (normalize_lyrics U s)"
  shows "(is_word_char U d \<or> is_space_char U d) \<and> decompose U d = [d]
         \<and> ccc U d = 0 \<and> casefold_char U d = [d]"
proof -
  let ?y = "collapse_newlines (strip_headers (nfkd U s))"
  from assms(3) obtain c where c: "c \<in> set ?y" "is_word_char U c \<or> is_space_char U c"
    "d \<in> set (casefold_char U c)"
    by (auto simp: normalize_lyrics_stages finish_def keep_words_and_spaces_def casefold_def)
  from c(1) collapse_subset [of "strip_headers (nfkd U s)"] strip_headers_subset [of "nfkd U s"]
  have "c \<in> set (nfkd U s)" by blast
  then obtain c0 where "c \<in> set (decompose U c0)" by (auto simp: nfkd_set)
  with assms(1) have "decompose U c = [c]" by (auto simp: ucd_full_def)
  with assms(2) c(2,3) show ?thesis unfolding ucd_folded_def by blast
qed

lemma excerpt_full: "ucd_full excerpt"
  by (auto simp: ucd_full_def decompose_def excerpt_def split: if_splits)

lemma excerpt_folded: "ucd_folded excerpt"
  by (auto simp: ucd_folded_def is_word_char_def is_space_char_def decompose_def ccc_def
      casefold_char_def excerpt_def split: if_splits)

subsection \<open>The pipeline\<close>




text \<open>
  Claim C8, as the code has it. In a Unicode database with the two facts above, for
  every text: normalising a normalised text collapses its doubled newlines once more and
  changes nothing else; so the normalisation of a text is a fixed point exactly when it
  has no two newlines in a row.
\<close>

theorem normalize_lyrics_twice:
  assumes "ucd_full U" and "ucd_folded U"
  shows "normalize_lyrics U (normalize_lyrics U s) = collapse_newlines (normalize_lyrics U s)
   \<and> (normalize_lyrics U (normalize_lyrics U s) = normalize_lyrics U s
        \<longleftrightarrow> \<not> sublist [newline, newline] (normalize_lyrics U s))"
proof -
  let ?t = "normalize_lyrics U s"
  have chars: "\<forall>d\<in>set ?t. (is_word_char U d \<or> is_space_char U d) \<and> decompose U d = [d]
         \<and> ccc U d = 0 \<and> casefold_char U d = [d]"
    using normalize_chars [OF assms] by blast
  then have "concat (map (decompose U) ?t) = ?t"
    by (intro decompose_fixed) blast
  moreover from chars have "canonical_order U ?t = ?t"
    by (intro canonical_order_starters) blast
  ultimately have n: "nfkd U ?t = ?t"
    by (simp add: nfkd_def)
  from chars have "91 \<notin> set ?t"
    using bracket_not_kept [of U] by blast
  then have "strip_headers ?t = ?t"
    by (rule strip_headers_no_bracket)
  with n have "normalize_lyrics U ?t = finish U (collapse_newlines ?t)"
    by (simp add: normalize_lyrics_stages)
  moreover have "finish U (collapse_newlines ?t) = collapse_newlines ?t"
    using chars collapse_subset [of ?t] by (intro finish_fixed) blast
  ultimately have eq: "normalize_lyrics U ?t = collapse_newlines ?t" by simp
  then show ?thesis by (simp add: collapse_fixed_iff)
qed

text \<open>
  A text with a sharp s, accented letters, a no-break space, a comma and a doubled
  newline: its normalisation, \<open>strasse\<close>, a newline and \<open>ete x\<close>, is a fixed point.
\<close>

theorem normalize_lyrics_twice_witness:
  "normalize_lyrics excerpt (ascii ''Stra'' @ [223] @ ascii ''e,\<newline>\<newline>'' @ [201] @ ascii ''t''
       @ [233, 160] @ ascii ''[x]'')
     = ascii ''strasse\<newline>ete x''
   \<and> normalize_lyrics excerpt (ascii ''strasse\<newline>ete x'') = ascii ''strasse\<newline>ete x''"
proof -
  let ?text = "ascii ''Stra'' @ [223] @ ascii ''e,\<newline>\<newline>'' @ [201] @ ascii ''t''
       @ [233, 160] @ ascii ''[x]''"
  have v: "normalize_lyrics excerpt ?text = ascii ''strasse\<newline>ete x''"
    by code_simp
  have t: "\<not> sublist [newline, newline] (ascii ''strasse\<newline>ete x'')"
    by code_simp
  note w = normalize_lyrics_twice [OF excerpt_full excerpt_folded, of ?text, THEN conjunct2,
      unfolded v]
  from w t v show ?thesis by blast
qed

text \<open>
  Claim C8 as it is worded, idempotence on every string, fails on a text with three
  newlines in a row: the first pass leaves two, the second pass leaves one.
\<close>

theorem normalize_lyrics_not_idempotent:
  "normalize_lyrics excerpt (normalize_lyrics excerpt (ascii ''a\<newline>\<newline>\<newline>b''))
     \<noteq> normalize_lyrics excerpt (ascii ''a\<newline>\<newline>\<newline>b'')"
  by code_simp

section \<open>Registries: properties\<close>

lemma keeps_refl: "keeps st st"
  by (simp add: keeps_def)

lemma keeps_trans:
  assumes "keeps st1 st2" and "keeps st2 st3"
  shows "keeps st1 st3"
proof -
  from assms have la: "length (artist_objs st1) \<le> length (artist_objs st2)"
    and ls: "length (song_objs st1) \<le> length (song_objs st2)"
    by (simp_all add: keeps_def)
  have a: "a_id (artist_objs st3 ! r) = a_id (artist_objs st1 ! r)
          \<and> a_name (artist_objs st3 ! r) = a_name (artist_objs st1 ! r)
          \<and> a_url (artist_objs st3 ! r) = a_url (artist_objs st1 ! r)"
    if "r < length (artist_objs st1)" for r
  proof -
    from that la have "r < length (artist_objs st2)" by simp
    with that assms show ?thesis by (simp add: keeps_def)
  qed
  have s: "s_id (song_objs st3 ! r) = s_id (song_objs st1 ! r)
          \<and> s_title (song_objs st3 ! r) = s_title (song_objs st1 ! r)
          \<and> s_full_title (song_objs st3 ! r) = s_full_title (song_objs st1 ! r)
          \<and> s_url (song_objs st3 ! r) = s_url (song_objs st1 ! r)
          \<and> s_artist (song_objs st3 ! r) = s_artist (song_objs st1 ! r)
          \<and> s_featured_artists (song_objs st3 ! r) = s_featured_artists (song_objs st1 ! r)"
    if "r < length (song_objs st1)" for r
  proof -
    from that ls have "r < length (song_objs st2)" by simp
    with that assms show ?thesis by (simp add: keeps_def)
  qed
  from assms have "length (artist_objs st1) \<le> length (artist_objs st3)"
    and "length (song_objs st1) \<le> length (song_objs st3)"
    and "\<forall>i r. artists_dict st1 i = Some r \<longrightarrow> artists_dict st3 i = Some r"
    and "\<forall>i r. songs_dict st1 i = Some r \<longrightarrow> songs_dict st3 i = Some r"
    by (simp_all add: keeps_def)
  with a s show ?thesis unfolding keeps_def by blast
qed

lemma Artist_from_data_keeps: "keeps st (fst (Artist_from_data st d))"
  by (auto simp: Artist_from_data_def keeps_def Let_def nth_append split: option.splits)

lemma Artist_from_data_songs:
  "song_objs (fst (Artist_from_data st d)) = song_objs st
   \<and> songs_dict (fst (Artist_from_data st d)) = songs_dict st"
  by (auto simp: Artist_from_data_def Let_def split: option.splits)

lemma featured_from_data_keeps: "keeps st (fst (featured_from_data st ds))"
proof (induction ds arbitrary: st)
  case Nil
  show ?case by (simp add: keeps_refl)
next
  case (Cons d ds)
  obtain st1 r where a: "Artist_from_data st d = (st1, r)"
    by (cases "Artist_from_data st d")
  obtain st2 rs where f: "featured_from_data st1 ds = (st2, rs)"
    by (cases "featured_from_data st1 ds")
  from Artist_from_data_keeps [of st d] a have "keeps st st1" by simp
  moreover from Cons.IH [of st1] f have "keeps st1 st2" by simp
  ultimately have "keeps st st2" by (rule keeps_trans)
  with a f show ?case by simp
qed

lemma featured_from_data_songs:
  "song_objs (fst (featured_from_data st ds)) = song_objs st
   \<and> songs_dict (fst (featured_from_data st ds)) = songs_dict st"
proof (induction ds arbitrary: st)
  case Nil
  show ?case by simp
next
  case (Cons d ds)
  obtain st1 r where a: "Artist_from_data st d = (st1, r)"
    by (cases "Artist_from_data st d")
  obtain st2 rs where f: "featured_from_data st1 ds = (st2, rs)"
    by (cases "featured_from_data st1 ds")
  from Artist_from_data_songs [of st d] a Cons.IH [of st1] f show ?case by simp
qed

lemma append_song_keeps: "keeps st (append_song a r st)"
proof (cases "a < length (artist_objs st)")
  case True
  then show ?thesis by (auto simp: append_song_def keeps_def nth_list_update)
next
  case False
  then show ?thesis by (simp add: append_song_def keeps_def)
qed

lemma append_featured_on_keeps: "keeps st (append_featured_on a r st)"
proof (cases "a < length (artist_objs st)")
  case True
  then show ?thesis by (auto simp: append_featured_on_def keeps_def nth_list_update)
next
  case False
  then show ?thesis by (simp add: append_featured_on_def keeps_def)
qed

lemma append_song_songs:
  "song_objs (append_song a r st) = song_objs st \<and> songs_dict (append_song a r st) = songs_dict st"
  by (simp add: append_song_def)

lemma append_featured_on_songs:
  "song_objs (append_featured_on a r st) = song_objs st
   \<and> songs_dict (append_featured_on a r st) = songs_dict st"
  by (simp add: append_featured_on_def)

lemma link_featured_keeps: "keeps st (link_featured r st fs)"
proof (induction fs arbitrary: st)
  case Nil
  show ?case by (simp add: keeps_refl)
next
  case (Cons f fs)
  from append_featured_on_keeps [of st f r] Cons.IH [of "append_featured_on f r st"]
  show ?case by (auto intro: keeps_trans)
qed

lemma link_featured_songs:
  "song_objs (link_featured r st fs) = song_objs st
   \<and> songs_dict (link_featured r st fs) = songs_dict st"
  by (induction fs arbitrary: st) (simp_all add: append_featured_on_songs)

lemma new_song_keeps: "keeps st (st\<lparr>song_objs := song_objs st @ [new]\<rparr>)"
  by (simp add: keeps_def nth_append)

lemma new_entry_keeps:
  "songs_dict st i = None \<Longrightarrow> keeps st (st\<lparr>songs_dict := (songs_dict st)(i \<mapsto> r)\<rparr>)"
  by (auto simp: keeps_def)

text \<open>The state and the reference a fresh song id gives.\<close>

lemma Song_from_data_new:
  assumes "songs_dict st (sd_id d) = None"
    and "Artist_from_data st (sd_primary_artist d) = (st1, a)"
    and "featured_from_data st1 (sd_featured_artists d) = (st2, fs)"
  shows "Song_from_data U st d =
           ((link_featured (length (song_objs st)) (append_song a (length (song_objs st))
               (st2\<lparr>song_objs := song_objs st2 @
                  [\<lparr>s_id = sd_id d, s_title = nfkd U (sd_title d),
                    s_full_title = nfkd U (sd_full_title d), s_url = sd_url d,
                    s_artist = a, s_featured_artists = fs, s_lyrics = None\<rparr>]\<rparr>)) fs)
             \<lparr>songs_dict := (songs_dict st)(sd_id d \<mapsto> length (song_objs st))\<rparr>,
            length (song_objs st))"
proof -
  from Artist_from_data_songs [of st "sd_primary_artist d"] assms(2)
  have s1: "song_objs st1 = song_objs st" "songs_dict st1 = songs_dict st" by simp_all
  from featured_from_data_songs [of st1 "sd_featured_artists d"] assms(3) s1
  have s2: "song_objs st2 = song_objs st" "songs_dict st2 = songs_dict st" by simp_all
  show ?thesis
    using assms s2
    by (simp add: Song_from_data_def Let_def link_featured_songs append_song_songs)
qed

lemma Song_from_data_keeps: "keeps st (fst (Song_from_data U st d))"
proof (cases "songs_dict st (sd_id d)")
  case (Some r)
  then show ?thesis by (simp add: Song_from_data_def keeps_refl)
next
  case None
  obtain st1 a where a: "Artist_from_data st (sd_primary_artist d) = (st1, a)"
    by (cases "Artist_from_data st (sd_primary_artist d)")
  obtain st2 fs where f: "featured_from_data st1 (sd_featured_artists d) = (st2, fs)"
    by (cases "featured_from_data st1 (sd_featured_artists d)")
  let ?r = "length (song_objs st)"
  let ?new = "\<lparr>s_id = sd_id d, s_title = nfkd U (sd_title d),
                    s_full_title = nfkd U (sd_full_title d), s_url = sd_url d,
                    s_artist = a, s_featured_artists = fs, s_lyrics = None\<rparr>"
  let ?st3 = "st2\<lparr>song_objs := song_objs st2 @ [?new]\<rparr>"
  let ?st4 = "append_song a ?r ?st3"
  let ?st5 = "link_featured ?r ?st4 fs"
  from Artist_from_data_songs [of st "sd_primary_artist d"] a
  have s1: "songs_dict st1 = songs_dict st" by simp
  from featured_from_data_songs [of st1 "sd_featured_artists d"] f s1
  have s2: "songs_dict st2 = songs_dict st" by simp
  have s5: "songs_dict ?st5 = songs_dict st"
    by (simp add: link_featured_songs append_song_songs s2)
  from Artist_from_data_keeps [of st "sd_primary_artist d"] a have "keeps st st1" by simp
  moreover from featured_from_data_keeps [of st1 "sd_featured_artists d"] f
  have "keeps st1 st2" by simp
  moreover have "keeps st2 ?st3" by (rule new_song_keeps)
  moreover have "keeps ?st3 ?st4" by (rule append_song_keeps)
  moreover have "keeps ?st4 ?st5" by (rule link_featured_keeps)
  moreover have "keeps ?st5 (?st5\<lparr>songs_dict := (songs_dict ?st5)(sd_id d \<mapsto> ?r)\<rparr>)"
    using None s5 by (intro new_entry_keeps) simp
  ultimately have "keeps st (?st5\<lparr>songs_dict := (songs_dict ?st5)(sd_id d \<mapsto> ?r)\<rparr>)"
    by (blast intro: keeps_trans)
  with Song_from_data_new [OF None a f] s5 show ?thesis by simp
qed

lemma set_lyrics_keeps: "keeps st (set_lyrics r v st)"
proof (cases "r < length (song_objs st)")
  case True
  then show ?thesis by (auto simp: set_lyrics_def keeps_def nth_list_update)
next
  case False
  then show ?thesis by (simp add: set_lyrics_def keeps_def)
qed

lemma run_call_keeps: "keeps st (run_call U st c)"
  by (cases c) (simp_all add: Artist_from_data_keeps Song_from_data_keeps set_lyrics_keeps)

lemma run_calls_keeps: "keeps st (run_calls U st cs)"
  unfolding run_calls_def
proof (induction cs arbitrary: st)
  case Nil
  show ?case by (simp add: keeps_refl)
next
  case (Cons c cs)
  from run_call_keeps [of st U c] Cons.IH [of "run_call U st c"] show ?case
    by (auto intro: keeps_trans)
qed

lemma Artist_from_data_registered:
  "Artist_from_data st d = (st1, r) \<Longrightarrow> artists_dict st1 (ad_id d) = Some r"
  by (auto simp: Artist_from_data_def Let_def split: option.splits)

lemma Artist_from_data_hit:
  "artists_dict st (ad_id d) = Some r \<Longrightarrow> Artist_from_data st d = (st, r)"
  by (simp add: Artist_from_data_def)

lemma Artist_from_data_fields:
  "artists_dict st (ad_id d) = None \<Longrightarrow> Artist_from_data st d = (st1, r)
   \<Longrightarrow> r < length (artist_objs st1) \<and> a_id (artist_objs st1 ! r) = ad_id d
       \<and> a_name (artist_objs st1 ! r) = ad_name d \<and> a_url (artist_objs st1 ! r) = ad_url d"
  by (auto simp: Artist_from_data_def Let_def)

lemma Song_from_data_registered:
  "Song_from_data U st d = (st1, r) \<Longrightarrow> songs_dict st1 (sd_id d) = Some r"
proof (cases "songs_dict st (sd_id d)")
  case (Some r')
  assume "Song_from_data U st d = (st1, r)"
  with Some show ?thesis by (auto simp: Song_from_data_def)
next
  case None
  assume s: "Song_from_data U st d = (st1, r)"
  obtain st1' a where a: "Artist_from_data st (sd_primary_artist d) = (st1', a)"
    by (cases "Artist_from_data st (sd_primary_artist d)")
  obtain st2 fs where f: "featured_from_data st1' (sd_featured_artists d) = (st2, fs)"
    by (cases "featured_from_data st1' (sd_featured_artists d)")
  from Song_from_data_new [OF None a f] s show ?thesis by auto
qed

lemma Song_from_data_hit:
  "songs_dict st (sd_id d) = Some r \<Longrightarrow> Song_from_data U st d = (st, r)"
  by (simp add: Song_from_data_def)

lemma Song_from_data_fields:
  assumes "songs_dict st (sd_id d) = None" and "Song_from_data U st d = (st1, r)"
  shows "r < length (song_objs st1) \<and> s_id (song_objs st1 ! r) = sd_id d
       \<and> s_title (song_objs st1 ! r) = nfkd U (sd_title d)
       \<and> s_full_title (song_objs st1 ! r) = nfkd U (sd_full_title d)
       \<and> s_url (song_objs st1 ! r) = sd_url d
       \<and> s_artist (song_objs st1 ! r) = snd (Artist_from_data st (sd_primary_artist d))
       \<and> s_featured_artists (song_objs st1 ! r)
           = snd (featured_from_data (fst (Artist_from_data st (sd_primary_artist d)))
                    (sd_featured_artists d))"
proof -
  obtain st1' a where a: "Artist_from_data st (sd_primary_artist d) = (st1', a)"
    by (cases "Artist_from_data st (sd_primary_artist d)")
  obtain st2 fs where f: "featured_from_data st1' (sd_featured_artists d) = (st2, fs)"
    by (cases "featured_from_data st1' (sd_featured_artists d)")
  from Artist_from_data_songs [of st "sd_primary_artist d"] a
  have s1: "song_objs st1' = song_objs st" by simp
  from featured_from_data_songs [of st1' "sd_featured_artists d"] f s1
  have s2: "song_objs st2 = song_objs st" by simp
  from Song_from_data_new [OF assms(1) a f] assms(2) a f s2 show ?thesis
    by (auto simp: link_featured_songs append_song_songs)
qed

text \<open>
  Claim C1. Once \<^verbatim>\<open>Artist.from_data\<close> has returned an object for an id, every later
  call with a record of the same id, after any run of calls, returns the same reference
  and changes nothing; and when the first call made the object (the id was not in the
  dictionary), its id, name and url stay those of the first record, whatever the later
  record says. The same holds for \<^verbatim>\<open>Song.from_data\<close> with the id, the (normalised)
  title and full title, the url, the primary artist and the featured artists.
\<close>

theorem from_data_identity:
  "(Artist_from_data st d = (st1, r) \<and> ad_id d' = ad_id d
      \<longrightarrow> Artist_from_data (run_calls U st1 cs) d' = (run_calls U st1 cs, r)
          \<and> (artists_dict st (ad_id d) = None
               \<longrightarrow> a_id (artist_objs (run_calls U st1 cs) ! r) = ad_id d
                   \<and> a_name (artist_objs (run_calls U st1 cs) ! r) = ad_name d
                   \<and> a_url (artist_objs (run_calls U st1 cs) ! r) = ad_url d))
   \<and> (Song_from_data U st s = (st2, q) \<and> sd_id s' = sd_id s
      \<longrightarrow> Song_from_data U (run_calls U st2 cs) s' = (run_calls U st2 cs, q)
          \<and> (songs_dict st (sd_id s) = None
               \<longrightarrow> s_id (song_objs (run_calls U st2 cs) ! q) = sd_id s
                   \<and> s_title (song_objs (run_calls U st2 cs) ! q) = nfkd U (sd_title s)
                   \<and> s_full_title (song_objs (run_calls U st2 cs) ! q) = nfkd U (sd_full_title s)
                   \<and> s_url (song_objs (run_calls U st2 cs) ! q) = sd_url s
                   \<and> s_artist (song_objs (run_calls U st2 cs) ! q)
                       = snd (Artist_from_data st (sd_primary_artist s))
                   \<and> s_featured_artists (song_objs (run_calls U st2 cs) ! q)
                       = snd (featured_from_data (fst (Artist_from_data st (sd_primary_artist s)))
                                (sd_featured_artists s))))"
proof (intro conjI impI)
  assume h: "Artist_from_data st d = (st1, r) \<and> ad_id d' = ad_id d"
  have k: "keeps st1 (run_calls U st1 cs)" by (rule run_calls_keeps)
  from h have "artists_dict st1 (ad_id d') = Some r"
    by (auto dest: Artist_from_data_registered)
  with k have "artists_dict (run_calls U st1 cs) (ad_id d') = Some r"
    by (simp add: keeps_def)
  then show "Artist_from_data (run_calls U st1 cs) d' = (run_calls U st1 cs, r)"
    by (rule Artist_from_data_hit)
  assume "artists_dict st (ad_id d) = None"
  with h have f: "r < length (artist_objs st1) \<and> a_id (artist_objs st1 ! r) = ad_id d
       \<and> a_name (artist_objs st1 ! r) = ad_name d \<and> a_url (artist_objs st1 ! r) = ad_url d"
    by (auto dest: Artist_from_data_fields)
  with k show "a_id (artist_objs (run_calls U st1 cs) ! r) = ad_id d"
    and "a_name (artist_objs (run_calls U st1 cs) ! r) = ad_name d"
    and "a_url (artist_objs (run_calls U st1 cs) ! r) = ad_url d"
    by (simp_all add: keeps_def)
next
  assume h: "Song_from_data U st s = (st2, q) \<and> sd_id s' = sd_id s"
  have k: "keeps st2 (run_calls U st2 cs)" by (rule run_calls_keeps)
  from h have "songs_dict st2 (sd_id s') = Some q"
    by (auto dest: Song_from_data_registered)
  with k have "songs_dict (run_calls U st2 cs) (sd_id s') = Some q"
    by (simp add: keeps_def)
  then show "Song_from_data U (run_calls U st2 cs) s' = (run_calls U st2 cs, q)"
    by (rule Song_from_data_hit)
  assume n: "songs_dict st (sd_id s) = None"
  from h have "Song_from_data U st s = (st2, q)" by simp
  from Song_from_data_fields [OF n this] k
  show "s_id (song_objs (run_calls U st2 cs) ! q) = sd_id s"
    and "s_title (song_objs (run_calls U st2 cs) ! q) = nfkd U (sd_title s)"
    and "s_full_title (song_objs (run_calls U st2 cs) ! q) = nfkd U (sd_full_title s)"
    and "s_url (song_objs (run_calls U st2 cs) ! q) = sd_url s"
    and "s_artist (song_objs (run_calls U st2 cs) ! q)
                       = snd (Artist_from_data st (sd_primary_artist s))"
    and "s_featured_artists (song_objs (run_calls U st2 cs) ! q)
                       = snd (featured_from_data (fst (Artist_from_data st (sd_primary_artist s)))
                                (sd_featured_artists s))"
    by (simp_all add: keeps_def)
qed

theorem from_data_identity_witness:
  "Artist_from_data (run_calls excerpt (fst (Artist_from_data (fresh Map.empty) al)) later_calls) al_renamed
     = (run_calls excerpt (fst (Artist_from_data (fresh Map.empty) al)) later_calls, 0)
   \<and> a_name (artist_objs (run_calls excerpt (fst (Artist_from_data (fresh Map.empty) al)) later_calls) ! 0)
     = ascii ''Al''
   \<and> Song_from_data excerpt (run_calls excerpt (fst (Song_from_data excerpt (fresh Map.empty) song_one)) later_calls)
       song_one_retitled
     = (run_calls excerpt (fst (Song_from_data excerpt (fresh Map.empty) song_one)) later_calls, 0)
   \<and> s_title (song_objs (run_calls excerpt (fst (Song_from_data excerpt (fresh Map.empty) song_one)) later_calls) ! 0)
     = ascii ''One''"
proof -
  let ?st = "fresh Map.empty"
  have a: "Artist_from_data ?st al = (fst (Artist_from_data ?st al), 0) \<and> ad_id al_renamed = ad_id al"
    by (simp add: Artist_from_data_def fresh_def al_def al_renamed_def)
  have an: "artists_dict ?st (ad_id al) = None"
    by (simp add: fresh_def)
  have s: "Song_from_data excerpt ?st song_one = (fst (Song_from_data excerpt ?st song_one), 0)
           \<and> sd_id song_one_retitled = sd_id song_one"
  proof -
    have "snd (Song_from_data excerpt ?st song_one) = 0" by code_simp
    moreover have "sd_id song_one_retitled = sd_id song_one"
      by (simp add: song_one_def song_one_retitled_def)
    ultimately show ?thesis by (simp add: prod_eq_iff)
  qed
  have sn: "songs_dict ?st (sd_id song_one) = None"
    by (simp add: fresh_def)
  have n1: "ad_name al = ascii ''Al''"
    by (simp add: al_def)
  have n2: "nfkd excerpt (sd_title song_one) = ascii ''One''"
    by code_simp
  note n = n1 n2
  from from_data_identity [of ?st al "fst (Artist_from_data ?st al)" 0 al_renamed excerpt later_calls
      song_one "fst (Song_from_data excerpt ?st song_one)" 0 song_one_retitled] a an s sn n
  show ?thesis by simp
qed

section \<open>Search: properties\<close>

lemma in_tests_Some: "in_tests qs (Some l) = Inr (map (\<lambda>q. sublist q l) qs)"
  by (induction qs) auto

lemma in_tests_None: "in_tests qs None = (if qs = [] then Inr [] else Inl TypeError)"
  by (cases qs) auto

lemma has_lyrics_matches:
  "has_lyrics match_all (map (\<lambda>q. sublist q l) qs) = matches_queries match_all qs l"
  by (simp add: has_lyrics_def matches_queries_def list_all_iff list_ex_iff)

lemma has_lyrics_Nil: "has_lyrics match_all [] = match_all"
  by (simp add: has_lyrics_def)

lemma matches_queries_Nil: "matches_queries match_all [] l = match_all"
  by (simp add: matches_queries_def)

text \<open>What the loop of the search does on every list of candidates.\<close>

lemma search_loop_result:
  "search_loop st qs match_all matches rs =
     (if qs \<noteq> [] \<and> (\<exists>r\<in>set rs. s_lyrics (song_objs st ! r) = None) then Inl TypeError
      else Inr (matches @ filter (\<lambda>r. case s_lyrics (song_objs st ! r) of
                                         None \<Rightarrow> match_all
                                       | Some l \<Rightarrow> l \<noteq> [] \<and> matches_queries match_all qs l) rs))"
proof (induction rs arbitrary: matches)
  case Nil
  show ?case by simp
next
  case (Cons r rs)
  show ?case
  proof (cases "s_lyrics (song_objs st ! r)")
    case None
    with Cons.IH [of matches] Cons.IH [of "matches @ [r]"] show ?thesis
      by (auto simp: in_tests_None has_lyrics_Nil)
  next
    case (Some l)
    with Cons.IH [of matches] Cons.IH [of "matches @ [r]"] show ?thesis
      by (auto simp: in_tests_Some has_lyrics_matches has_lyrics_Nil matches_queries_Nil)
  qed
qed

lemma normalize_queries_Nil: "normalize_queries U arg = [] \<longleftrightarrow> arg = Many []"
  by (cases arg) (auto simp: normalize_queries_def)

text \<open>
  Claim C2, as the code has it. For an artist whose candidate songs all have their lyrics
  set, \<^verbatim>\<open>search_artist_lyrics\<close> returns the candidates (the artist's songs, then the
  songs the artist is featured on when the flag is set) whose lyrics are not the empty
  string and match the normalised queries: all of them with \<open>match_all\<close>, at least one
  otherwise. The result keeps the order of the candidates.
\<close>

theorem search_artist_lyrics_fetched:
  "\<forall>r\<in>set (all_songs st a featured). s_lyrics (song_objs st ! r) \<noteq> None
   \<Longrightarrow> search_artist_lyrics U st a arg featured match_all =
         Inr (filter (\<lambda>r. case s_lyrics (song_objs st ! r) of
                            None \<Rightarrow> False
                          | Some l \<Rightarrow> l \<noteq> [] \<and> matches_queries match_all (normalize_queries U arg) l)
                (a_songs (artist_objs st ! a)
                 @ (if featured then a_featured_on (artist_objs st ! a) else [])))"
proof -
  assume set: "\<forall>r\<in>set (all_songs st a featured). s_lyrics (song_objs st ! r) \<noteq> None"
  then have "filter (\<lambda>r. case s_lyrics (song_objs st ! r) of
                            None \<Rightarrow> match_all
                          | Some l \<Rightarrow> l \<noteq> [] \<and> matches_queries match_all (normalize_queries U arg) l)
               (all_songs st a featured)
           = filter (\<lambda>r. case s_lyrics (song_objs st ! r) of
                            None \<Rightarrow> False
                          | Some l \<Rightarrow> l \<noteq> [] \<and> matches_queries match_all (normalize_queries U arg) l)
               (all_songs st a featured)"
    by (intro filter_cong) (auto split: option.splits)
  with set show ?thesis
    by (simp add: search_artist_lyrics_def search_loop_result) (simp add: all_songs_def)
qed

theorem search_artist_lyrics_fetched_witness:
  "search_artist_lyrics excerpt fetched_world 0 (One (ascii ''La!'')) True False = Inr [0]"
proof -
  have h: "\<forall>r\<in>set (all_songs fetched_world 0 True). s_lyrics (song_objs fetched_world ! r) \<noteq> None"
    by code_simp
  have e: "filter (\<lambda>r. case s_lyrics (song_objs fetched_world ! r) of
                            None \<Rightarrow> False
                          | Some l \<Rightarrow> l \<noteq> [] \<and> matches_queries False (normalize_queries excerpt (One (ascii ''La!''))) l)
                (a_songs (artist_objs fetched_world ! 0)
                 @ (if True then a_featured_on (artist_objs fetched_world ! 0) else []))
           = [0]"
    by code_simp
  from search_artist_lyrics_fetched [OF h, where arg = "One (ascii ''La!'')" and match_all = False] e
  show ?thesis by (simp only:)
qed

text \<open>
  Claim C2 as it is worded, for every artist, fails on an artist with a song whose lyrics
  were never fetched: the search raises \<^verbatim>\<open>TypeError\<close> and returns no list.
\<close>

theorem search_artist_lyrics_raises:
  "search_artist_lyrics excerpt unfetched_world 0 (One (ascii ''La!'')) True False = Inl TypeError"
  by code_simp

text \<open>
  Claim C10, as the code has it. The search raises \<^verbatim>\<open>TypeError\<close> exactly when there
  is at least one query and some candidate song has lyrics that are still \<^verbatim>\<open>None\<close>;
  only songs with the empty string are skipped. With an empty list of queries the
  substring test is never run and the search returns.
\<close>

theorem search_artist_lyrics_unfetched:
  "search_artist_lyrics U st a arg featured match_all = Inl TypeError
   \<longleftrightarrow> arg \<noteq> Many [] \<and> (\<exists>r\<in>set (all_songs st a featured). s_lyrics (song_objs st ! r) = None)"
  by (simp add: search_artist_lyrics_def search_loop_result normalize_queries_Nil)

theorem search_artist_lyrics_unfetched_witness:
  "search_artist_lyrics excerpt unfetched_world 0 (Many [ascii ''oh'', ascii ''la'']) False True = Inl TypeError"
proof -
  have "Many [ascii ''oh'', ascii ''la''] \<noteq> Many []"
    by simp
  moreover have "\<exists>r\<in>set (all_songs unfetched_world 0 False). s_lyrics (song_objs unfetched_world ! r) = None"
    by code_simp
  ultimately show ?thesis
    using search_artist_lyrics_unfetched [of excerpt unfetched_world 0 "Many [ascii ''oh'', ascii ''la'']" False True]
    by blast
qed

text \<open>
  Claim C10 as it is worded, that a search over an artist with an unfetched candidate
  song fails, does not hold for an empty list of queries: the search returns, and with
  \<open>match_all\<close> its result holds the unfetched songs.
\<close>

theorem search_artist_lyrics_no_query:
  "search_artist_lyrics excerpt unfetched_world 0 (Many []) True True = Inr [0, 1]
   \<and> search_artist_lyrics excerpt unfetched_world 0 (Many []) True False = Inr []"
  by code_simp

section \<open>Lyrics fetcher: properties\<close>

text \<open>
  Claim C9. When the lyrics of a song are set (to the empty string as well),
  \<^verbatim>\<open>get_song_lyrics\<close> returns them and leaves the whole state as it was: no request is
  added to the requests sent, and no field of any object changes.
\<close>

theorem get_song_lyrics_cached:
  "s_lyrics (song_objs st ! song) = Some l \<Longrightarrow> get_song_lyrics U net sel st song = (st, Inr l)"
  by (simp add: get_song_lyrics_def)

theorem get_song_lyrics_cached_witness:
  "s_lyrics (song_objs fetched_world ! 1) = Some []
   \<and> get_song_lyrics excerpt network_down no_container fetched_world 1 = (fetched_world, Inr [])"
proof -
  have h: "s_lyrics (song_objs fetched_world ! 1) = Some []"
    by code_simp
  from get_song_lyrics_cached [OF h, of excerpt network_down no_container] h show ?thesis
    by simp
qed

lemma fetch_lyrics_error:
  assumes "\<forall>u e. net u = Inl e \<longrightarrow> is_Exception e"
    and "\<forall>h e. sel h = Inl e \<longrightarrow> is_Exception e"
    and "fetch_lyrics U net sel st url = (st1, Inl e)"
  shows "is_Exception e"
  using assms
  by (auto simp: fetch_lyrics_def Let_def split: sum.splits list.splits)

lemma fetch_lyrics_objs:
  "fetch_lyrics U net sel st url = (st1, res) \<Longrightarrow> song_objs st1 = song_objs st \<and> artist_objs st1 = artist_objs st"
  by (auto simp: fetch_lyrics_def Let_def split: sum.splits list.splits)

lemma set_lyrics_read:
  "song < length (song_objs st) \<Longrightarrow> s_lyrics (song_objs (set_lyrics song v st) ! song) = v"
  by (simp add: set_lyrics_def)

lemma set_lyrics_artists: "artist_objs (set_lyrics song v st) = artist_objs st"
  by (simp add: set_lyrics_def)

lemma get_song_lyrics_contained:
  assumes "\<forall>u e. net u = Inl e \<longrightarrow> is_Exception e"
    and "\<forall>h e. sel h = Inl e \<longrightarrow> is_Exception e"
  shows "\<exists>st' l. get_song_lyrics U net sel st song = (st', Inr l)"
proof (cases "s_lyrics (song_objs st ! song)")
  case (Some l)
  then show ?thesis by (simp add: get_song_lyrics_def)
next
  case None
  obtain st1 res where f: "fetch_lyrics U net sel st (s_url (song_objs st ! song)) = (st1, res)"
    by (cases "fetch_lyrics U net sel st (s_url (song_objs st ! song))")
  show ?thesis
  proof (cases res)
    case (Inl e)
    with f assms have "is_Exception e" by (auto dest: fetch_lyrics_error)
    with None f Inl show ?thesis by (simp add: get_song_lyrics_def)
  next
    case (Inr l)
    with None f show ?thesis by (simp add: get_song_lyrics_def)
  qed
qed

lemma lyrics_loop_contained:
  assumes "\<forall>u e. net u = Inl e \<longrightarrow> is_Exception e"
    and "\<forall>h e. sel h = Inl e \<longrightarrow> is_Exception e"
  shows "\<exists>st'. lyrics_loop U net sel st rs = (st', Inr ())"
proof (induction rs arbitrary: st)
  case Nil
  show ?case by simp
next
  case (Cons r rs)
  from get_song_lyrics_contained [OF assms, of U st r]
  obtain st1 l where "get_song_lyrics U net sel st r = (st1, Inr l)" by blast
  with Cons.IH [of st1] show ?case by simp
qed

text \<open>
  Claim C6. Let the network and the parser raise instances of \<^verbatim>\<open>Exception\<close> only.
  Then for a song whose lyrics are unset, a failure anywhere in the body of the
  \<^verbatim>\<open>try\<close> (the request, the parse, the missing container) makes
  \<^verbatim>\<open>get_song_lyrics\<close> set the lyrics to the empty string and return it;
  \<^verbatim>\<open>get_song_lyrics\<close> always returns, and so does \<^verbatim>\<open>get_artist_lyrics\<close>.
\<close>

theorem get_song_lyrics_failure_contained:
  assumes "\<forall>u e. net u = Inl e \<longrightarrow> is_Exception e"
    and "\<forall>h e. sel h = Inl e \<longrightarrow> is_Exception e"
  shows "(s_lyrics (song_objs st ! song) = None \<and> song < length (song_objs st)
          \<and> snd (fetch_lyrics U net sel st (s_url (song_objs st ! song))) = Inl e
          \<longrightarrow> (\<exists>st'. get_song_lyrics U net sel st song = (st', Inr [])
                     \<and> s_lyrics (song_objs st' ! song) = Some []))
         \<and> (\<exists>st' l. get_song_lyrics U net sel st song = (st', Inr l))
         \<and> (\<exists>st'. get_artist_lyrics U net sel st a = (st', Inr ()))"
proof (intro conjI impI)
  assume h: "s_lyrics (song_objs st ! song) = None \<and> song < length (song_objs st)
          \<and> snd (fetch_lyrics U net sel st (s_url (song_objs st ! song))) = Inl e"
  obtain st1 where f: "fetch_lyrics U net sel st (s_url (song_objs st ! song)) = (st1, Inl e)"
    using h by (cases "fetch_lyrics U net sel st (s_url (song_objs st ! song))") auto
  with assms have e: "is_Exception e" by (auto dest: fetch_lyrics_error)
  from f have "song_objs st1 = song_objs st" by (auto dest: fetch_lyrics_objs)
  with h have "song < length (song_objs st1)" by simp
  then have "s_lyrics (song_objs (set_lyrics song (Some []) st1) ! song) = Some []"
    by (rule set_lyrics_read)
  with h f e show "\<exists>st'. get_song_lyrics U net sel st song = (st', Inr [])
                     \<and> s_lyrics (song_objs st' ! song) = Some []"
    by (simp add: get_song_lyrics_def)
next
  show "\<exists>st' l. get_song_lyrics U net sel st song = (st', Inr l)"
    by (rule get_song_lyrics_contained [OF assms])
next
  show "\<exists>st'. get_artist_lyrics U net sel st a = (st', Inr ())"
    unfolding get_artist_lyrics_def by (rule lyrics_loop_contained [OF assms])
qed

theorem get_song_lyrics_failure_contained_witness:
  "(\<exists>st'. get_song_lyrics excerpt network_down no_container unfetched_world 0 = (st', Inr [])
          \<and> s_lyrics (song_objs st' ! 0) = Some [])
   \<and> (\<exists>st'. get_artist_lyrics excerpt network_down no_container unfetched_world 0 = (st', Inr ()))"
proof -
  have n: "\<forall>u e. network_down u = Inl e \<longrightarrow> is_Exception e"
    by (simp add: network_down_def)
  have p: "\<forall>h e. no_container h = Inl e \<longrightarrow> is_Exception e"
    by (simp add: no_container_def)
  have h: "s_lyrics (song_objs unfetched_world ! 0) = None \<and> 0 < length (song_objs unfetched_world)"
    by code_simp
  have f: "snd (fetch_lyrics excerpt network_down no_container unfetched_world
                  (s_url (song_objs unfetched_world ! 0))) = Inl RequestError"
    by (simp add: fetch_lyrics_def network_down_def)
  from get_song_lyrics_failure_contained [OF n p, of unfetched_world 0 excerpt RequestError 0] h f
  show ?thesis by blast
qed

section \<open>Well-formed states\<close>

lemma wf_world_fresh: "wf_world U (fresh disk)"
  by (simp add: wf_world_def wf_dicts_def wf_refs_def wf_links_def wf_titles_def fresh_def)

subsection \<open>A new artist\<close>

lemma Artist_from_data_cases:
  assumes "Artist_from_data st d = (st1, r)"
  shows "(artists_dict st (ad_id d) = Some r \<and> st1 = st)
       \<or> (artists_dict st (ad_id d) = None \<and> r = length (artist_objs st)
           \<and> st1 = st\<lparr>artist_objs := artist_objs st @
                         [\<lparr>a_id = ad_id d, a_name = ad_name d, a_url = ad_url d,
                           a_songs = [], a_featured_on = []\<rparr>],
                       artists_dict := (artists_dict st)(ad_id d \<mapsto> length (artist_objs st))\<rparr>)"
  using assms by (auto simp: Artist_from_data_def Let_def split: option.splits)

lemma wf_dicts_new_artist:
  assumes "wf_dicts st" and "artists_dict st i = None" and "a_id new = i"
  shows "wf_dicts (st\<lparr>artist_objs := artist_objs st @ [new],
                      artists_dict := (artists_dict st)(i \<mapsto> length (artist_objs st))\<rparr>)"
proof -
  define st' where "st' = st\<lparr>artist_objs := artist_objs st @ [new],
                      artists_dict := (artists_dict st)(i \<mapsto> length (artist_objs st))\<rparr>"
  have c: "artist_objs st' = artist_objs st @ [new]"
    "artists_dict st' = (artists_dict st)(i \<mapsto> length (artist_objs st))"
    "song_objs st' = song_objs st" "songs_dict st' = songs_dict st"
    by (simp_all add: st'_def)
  have other: "a_id (artist_objs st ! r) \<noteq> i" if "r < length (artist_objs st)" for r
  proof
    assume "a_id (artist_objs st ! r) = i"
    with assms(1) that have "artists_dict st i = Some r" by (auto simp: wf_dicts_def)
    with assms(2) show False by simp
  qed
  have 1: "r < length (artist_objs st') \<and> a_id (artist_objs st' ! r) = j"
    if "artists_dict st' j = Some r" for j r
    using that assms(1,3) by (auto simp: c wf_dicts_def nth_append split: if_splits)
  have 2: "artists_dict st' (a_id (artist_objs st' ! r)) = Some r"
    if "r < length (artist_objs st')" for r
  proof -
    from that have "r < length (artist_objs st) \<or> r = length (artist_objs st)"
      by (auto simp: c)
    then show ?thesis
      using assms(1,3) other by (auto simp: c wf_dicts_def nth_append)
  qed
  have 3: "r < length (song_objs st') \<and> s_id (song_objs st' ! r) = j"
    if "songs_dict st' j = Some r" for j r
    using that assms(1) by (auto simp: c wf_dicts_def)
  have 4: "songs_dict st' (s_id (song_objs st' ! r)) = Some r"
    if "r < length (song_objs st')" for r
    using that assms(1) by (auto simp: c wf_dicts_def)
  from 1 2 3 4 have "wf_dicts st'" unfolding wf_dicts_def by blast
  then show ?thesis by (simp add: st'_def)
qed

lemma wf_refs_new_artist:
  assumes "wf_refs st"
  shows "wf_refs (st\<lparr>artist_objs := artist_objs st @ [new], artists_dict := m\<rparr>)"
  using assms by (fastforce simp: wf_refs_def)

lemma wf_links_new_artist:
  assumes "wf_links st" and "wf_refs st" and "a_songs new = []" and "a_featured_on new = []"
  shows "wf_links (st\<lparr>artist_objs := artist_objs st @ [new], artists_dict := m\<rparr>)"
proof -
  define st' where "st' = st\<lparr>artist_objs := artist_objs st @ [new], artists_dict := m\<rparr>"
  have c: "artist_objs st' = artist_objs st @ [new]" "song_objs st' = song_objs st"
    by (simp_all add: st'_def)
  have none: "s_artist (song_objs st ! r) \<noteq> length (artist_objs st)
          \<and> length (artist_objs st) \<notin> set (s_featured_artists (song_objs st ! r))"
    if "r < length (song_objs st)" for r
    using assms(2) that unfolding wf_refs_def by fastforce
  have "distinct (a_songs (artist_objs st' ! a))
        \<and> set (a_songs (artist_objs st' ! a))
            = {r. r < length (song_objs st') \<and> s_artist (song_objs st' ! r) = a}
        \<and> set (a_featured_on (artist_objs st' ! a))
            = {r. r < length (song_objs st') \<and> a \<in> set (s_featured_artists (song_objs st' ! r))}"
    if "a < length (artist_objs st')" for a
  proof -
    from that consider "a < length (artist_objs st)" | "a = length (artist_objs st)"
      by (fastforce simp: c)
    then show ?thesis
    proof cases
      case 1
      with assms(1) show ?thesis by (simp add: c wf_links_def nth_append)
    next
      case 2
      with none assms(3,4) show ?thesis by (auto simp: c)
    qed
  qed
  then have "wf_links st'" unfolding wf_links_def by blast
  then show ?thesis by (simp add: st'_def)
qed

lemma wf_titles_new_artist:
  "wf_titles U st \<Longrightarrow> wf_titles U (st\<lparr>artist_objs := xs, artists_dict := m\<rparr>)"
  by (simp add: wf_titles_def)

lemma Artist_from_data_wf:
  assumes "wf_world U st" and "Artist_from_data st d = (st1, r)"
  shows "wf_world U st1"
proof -
  from Artist_from_data_cases [OF assms(2)] show ?thesis
  proof
    assume "artists_dict st (ad_id d) = Some r \<and> st1 = st"
    with assms(1) show ?thesis by simp
  next
    assume n: "artists_dict st (ad_id d) = None \<and> r = length (artist_objs st)
           \<and> st1 = st\<lparr>artist_objs := artist_objs st @
                         [\<lparr>a_id = ad_id d, a_name = ad_name d, a_url = ad_url d,
                           a_songs = [], a_featured_on = []\<rparr>],
                       artists_dict := (artists_dict st)(ad_id d \<mapsto> length (artist_objs st))\<rparr>"
    with assms(1) show ?thesis
      unfolding wf_world_def
      by (auto intro!: wf_dicts_new_artist wf_refs_new_artist wf_links_new_artist
          wf_titles_new_artist)
  qed
qed

lemma Artist_from_data_ref:
  assumes "wf_world U st" and "Artist_from_data st d = (st1, r)"
  shows "r < length (artist_objs st1) \<and> a_id (artist_objs st1 ! r) = ad_id d
         \<and> artists_dict st1 (ad_id d) = Some r"
proof -
  from Artist_from_data_cases [OF assms(2)] show ?thesis
  proof
    assume "artists_dict st (ad_id d) = Some r \<and> st1 = st"
    with assms(1) show ?thesis by (auto simp: wf_world_def wf_dicts_def)
  next
    assume "artists_dict st (ad_id d) = None \<and> r = length (artist_objs st)
           \<and> st1 = st\<lparr>artist_objs := artist_objs st @
                         [\<lparr>a_id = ad_id d, a_name = ad_name d, a_url = ad_url d,
                           a_songs = [], a_featured_on = []\<rparr>],
                       artists_dict := (artists_dict st)(ad_id d \<mapsto> length (artist_objs st))\<rparr>"
    then show ?thesis by simp
  qed
qed

lemma featured_from_data_wf:
  "wf_world U st \<Longrightarrow> featured_from_data st ds = (st2, fs) \<Longrightarrow> wf_world U st2"
proof (induction ds arbitrary: st st2 fs)
  case Nil
  then show ?case by simp
next
  case (Cons d ds)
  obtain st1 r where a: "Artist_from_data st d = (st1, r)"
    by (cases "Artist_from_data st d")
  obtain st2' rs where f: "featured_from_data st1 ds = (st2', rs)"
    by (cases "featured_from_data st1 ds")
  from Cons.prems(1) a have "wf_world U st1" by (rule Artist_from_data_wf)
  from Cons.IH [OF this f] a f Cons.prems(2) show ?case by simp
qed

subsection \<open>The featured artists of a new song\<close>

lemma keeps_artist_id:
  "keeps st st' \<Longrightarrow> r < length (artist_objs st)
   \<Longrightarrow> r < length (artist_objs st') \<and> a_id (artist_objs st' ! r) = a_id (artist_objs st ! r)"
  by (auto simp: keeps_def)

lemma featured_from_data_refs:
  "wf_world U st \<Longrightarrow> featured_from_data st ds = (st2, fs)
   \<Longrightarrow> (\<forall>f\<in>set fs. f < length (artist_objs st2))
       \<and> map (\<lambda>f. a_id (artist_objs st2 ! f)) fs = map ad_id ds"
proof (induction ds arbitrary: st st2 fs)
  case Nil
  then show ?case by auto
next
  case (Cons d ds)
  obtain st1 r where a: "Artist_from_data st d = (st1, r)"
    by (cases "Artist_from_data st d")
  obtain st2' rs where f: "featured_from_data st1 ds = (st2', rs)"
    by (cases "featured_from_data st1 ds")
  from a f Cons.prems(2) have eq: "st2 = st2'" "fs = r # rs" by simp_all
  from Cons.prems(1) a have w1: "wf_world U st1" by (rule Artist_from_data_wf)
  from Artist_from_data_ref [OF Cons.prems(1) a]
  have r1: "r < length (artist_objs st1)" "a_id (artist_objs st1 ! r) = ad_id d" by simp_all
  from featured_from_data_keeps [of st1 ds] f have "keeps st1 st2'" by simp
  from keeps_artist_id [OF this r1(1)] r1(2)
  have r2: "r < length (artist_objs st2')" "a_id (artist_objs st2' ! r) = ad_id d" by simp_all
  from Cons.IH [OF w1 f] r2 show ?case by (simp add: eq)
qed

subsection \<open>The links of a new song\<close>

lemma append_song_artists:
  "length (artist_objs (append_song a r st)) = length (artist_objs st)"
  "artists_dict (append_song a r st) = artists_dict st"
  "x < length (artist_objs st) \<Longrightarrow>
     artist_objs (append_song a r st) ! x =
       (if x = a then (artist_objs st ! x)\<lparr>a_songs := a_songs (artist_objs st ! x) @ [r]\<rparr>
        else artist_objs st ! x)"
  by (simp_all add: append_song_def nth_list_update)

lemma append_featured_on_artists:
  "length (artist_objs (append_featured_on a r st)) = length (artist_objs st)"
  "artists_dict (append_featured_on a r st) = artists_dict st"
  "x < length (artist_objs st) \<Longrightarrow>
     artist_objs (append_featured_on a r st) ! x =
       (if x = a
        then (artist_objs st ! x)\<lparr>a_featured_on := a_featured_on (artist_objs st ! x) @ [r]\<rparr>
        else artist_objs st ! x)"
  by (simp_all add: append_featured_on_def nth_list_update)

lemma link_featured_length:
  "length (artist_objs (link_featured r st fs)) = length (artist_objs st)"
  by (induction fs arbitrary: st) (simp_all add: append_featured_on_artists)

lemma link_featured_dict:
  "artists_dict (link_featured r st fs) = artists_dict st"
  by (induction fs arbitrary: st) (simp_all add: append_featured_on_artists)

lemma link_featured_nth:
  "x < length (artist_objs st) \<Longrightarrow>
     a_songs (artist_objs (link_featured r st fs) ! x) = a_songs (artist_objs st ! x)
     \<and> a_id (artist_objs (link_featured r st fs) ! x) = a_id (artist_objs st ! x)
     \<and> a_featured_on (artist_objs (link_featured r st fs) ! x)
         = a_featured_on (artist_objs st ! x) @ replicate (count_list fs x) r"
proof (induction fs arbitrary: st)
  case Nil
  show ?case by simp
next
  case (Cons f fs)
  from Cons.prems have "x < length (artist_objs (append_featured_on f r st))"
    by (simp add: append_featured_on_artists)
  from Cons.IH [OF this] Cons.prems show ?case
    by (simp add: append_featured_on_artists replicate_app_Cons_same)
qed

text \<open>The state a new song leaves, given by its parts.\<close>

lemma Song_from_data_parts:
  assumes "songs_dict st (sd_id d) = None"
    and "Artist_from_data st (sd_primary_artist d) = (st1, a)"
    and "featured_from_data st1 (sd_featured_artists d) = (st2, fs)"
    and "Song_from_data U st d = (st', r)"
  shows "r = length (song_objs st2)"
    and "song_objs st' = song_objs st2 @
           [\<lparr>s_id = sd_id d, s_title = nfkd U (sd_title d),
             s_full_title = nfkd U (sd_full_title d), s_url = sd_url d,
             s_artist = a, s_featured_artists = fs, s_lyrics = None\<rparr>]"
    and "songs_dict st' = (songs_dict st2)(sd_id d \<mapsto> length (song_objs st2))"
    and "songs_dict st2 (sd_id d) = None"
    and "artists_dict st' = artists_dict st2"
    and "length (artist_objs st') = length (artist_objs st2)"
    and "\<forall>x<length (artist_objs st2).
           a_id (artist_objs st' ! x) = a_id (artist_objs st2 ! x)
           \<and> a_songs (artist_objs st' ! x)
               = a_songs (artist_objs st2 ! x) @ (if x = a then [length (song_objs st2)] else [])
           \<and> a_featured_on (artist_objs st' ! x)
               = a_featured_on (artist_objs st2 ! x)
                 @ replicate (count_list fs x) (length (song_objs st2))"
    and "files st' = files st" and "requested st' = requested st"
proof -
  from Artist_from_data_songs [of st "sd_primary_artist d"] assms(2)
  have s1: "song_objs st1 = song_objs st" "songs_dict st1 = songs_dict st" by simp_all
  from featured_from_data_songs [of st1 "sd_featured_artists d"] assms(3) s1
  have s2: "song_objs st2 = song_objs st" "songs_dict st2 = songs_dict st" by simp_all
  let ?new = "\<lparr>s_id = sd_id d, s_title = nfkd U (sd_title d),
             s_full_title = nfkd U (sd_full_title d), s_url = sd_url d,
             s_artist = a, s_featured_artists = fs, s_lyrics = None\<rparr>"
  let ?r = "length (song_objs st)"
  let ?st3 = "st2\<lparr>song_objs := song_objs st2 @ [?new]\<rparr>"
  let ?st4 = "append_song a ?r ?st3"
  let ?st5 = "link_featured ?r ?st4 fs"
  from Song_from_data_new [OF assms(1-3), of U] assms(4)
  have st': "st' = ?st5\<lparr>songs_dict := (songs_dict st)(sd_id d \<mapsto> ?r)\<rparr>" and r: "r = ?r"
    by simp_all
  show "r = length (song_objs st2)" by (simp add: r s2)
  show "song_objs st' = song_objs st2 @ [?new]"
    by (simp add: st' link_featured_songs append_song_songs)
  show "songs_dict st' = (songs_dict st2)(sd_id d \<mapsto> length (song_objs st2))"
    by (simp add: st' s2)
  show "songs_dict st2 (sd_id d) = None" by (simp add: s2 assms(1))
  show "artists_dict st' = artists_dict st2"
    by (simp add: st' link_featured_dict append_song_artists)
  show "length (artist_objs st') = length (artist_objs st2)"
    by (simp add: st' link_featured_length append_song_artists)
  show "\<forall>x<length (artist_objs st2).
           a_id (artist_objs st' ! x) = a_id (artist_objs st2 ! x)
           \<and> a_songs (artist_objs st' ! x)
               = a_songs (artist_objs st2 ! x) @ (if x = a then [length (song_objs st2)] else [])
           \<and> a_featured_on (artist_objs st' ! x)
               = a_featured_on (artist_objs st2 ! x)
                 @ replicate (count_list fs x) (length (song_objs st2))"
  proof (intro allI impI)
    fix x
    assume x: "x < length (artist_objs st2)"
    then have "x < length (artist_objs ?st4)" by (simp add: append_song_artists)
    from link_featured_nth [OF this, of ?r fs] x
    show "a_id (artist_objs st' ! x) = a_id (artist_objs st2 ! x)
           \<and> a_songs (artist_objs st' ! x)
               = a_songs (artist_objs st2 ! x) @ (if x = a then [length (song_objs st2)] else [])
           \<and> a_featured_on (artist_objs st' ! x)
               = a_featured_on (artist_objs st2 ! x)
                 @ replicate (count_list fs x) (length (song_objs st2))"
      by (simp add: st' s2 append_song_artists)
  qed
  have f1: "files st1 = files st \<and> requested st1 = requested st"
    using Artist_from_data_cases [OF assms(2)] by auto
  have f2: "files (fst (featured_from_data s ds)) = files s
            \<and> requested (fst (featured_from_data s ds)) = requested s" for s ds
  proof (induction ds arbitrary: s)
    case Nil
    show ?case by simp
  next
    case (Cons e es)
    obtain s1 q where a: "Artist_from_data s e = (s1, q)" by (cases "Artist_from_data s e")
    obtain s2 qs where f: "featured_from_data s1 es = (s2, qs)"
      by (cases "featured_from_data s1 es")
    from Artist_from_data_cases [OF a] have "files s1 = files s \<and> requested s1 = requested s"
      by auto
    with Cons.IH [of s1] a f show ?case by simp
  qed
  have f3: "files (link_featured q s gs) = files s \<and> requested (link_featured q s gs) = requested s"
    for q s gs
    by (induction gs arbitrary: s) (simp_all add: append_featured_on_def)
  from f2 [of st1 "sd_featured_artists d"] assms(3) f1
  have "files st2 = files st \<and> requested st2 = requested st" by simp
  then show "files st' = files st" and "requested st' = requested st"
    by (simp_all add: st' f3 append_song_def)
qed

subsection \<open>A new song\<close>

lemma wf_new_song:
  assumes w: "wf_world U st2"
    and a: "a < length (artist_objs st2)"
    and fs: "\<forall>f\<in>set fs. f < length (artist_objs st2)"
    and none: "songs_dict st2 i = None"
    and so: "song_objs st' = song_objs st2 @ [new]"
    and sd: "songs_dict st' = (songs_dict st2)(i \<mapsto> length (song_objs st2))"
    and ad: "artists_dict st' = artists_dict st2"
    and len: "length (artist_objs st') = length (artist_objs st2)"
    and objs: "\<forall>x<length (artist_objs st2).
           a_id (artist_objs st' ! x) = a_id (artist_objs st2 ! x)
           \<and> a_songs (artist_objs st' ! x)
               = a_songs (artist_objs st2 ! x) @ (if x = a then [length (song_objs st2)] else [])
           \<and> a_featured_on (artist_objs st' ! x)
               = a_featured_on (artist_objs st2 ! x)
                 @ replicate (count_list fs x) (length (song_objs st2))"
    and new: "s_id new = i" "s_artist new = a" "s_featured_artists new = fs"
      "nfkd U (s_title new) = s_title new" "nfkd U (s_full_title new) = s_full_title new"
  shows "wf_world U st'"
proof -
  from w have wd: "wf_dicts st2" and wr: "wf_refs st2" and wl: "wf_links st2"
    and wt: "wf_titles U st2"
    by (simp_all add: wf_world_def)
  let ?n = "length (song_objs st2)"
  have other: "s_id (song_objs st2 ! r) \<noteq> i" if "r < ?n" for r
  proof
    assume "s_id (song_objs st2 ! r) = i"
    with wd that have "songs_dict st2 i = Some r" by (auto simp: wf_dicts_def)
    with none show False by simp
  qed
  have d1: "r < length (artist_objs st') \<and> a_id (artist_objs st' ! r) = j"
    if "artists_dict st' j = Some r" for j r
    using that wd objs by (auto simp: ad len wf_dicts_def)
  have d2: "artists_dict st' (a_id (artist_objs st' ! r)) = Some r"
    if "r < length (artist_objs st')" for r
    using that wd objs by (auto simp: ad len wf_dicts_def)
  have d3: "r < length (song_objs st') \<and> s_id (song_objs st' ! r) = j"
    if "songs_dict st' j = Some r" for j r
    using that wd new(1) by (auto simp: so sd wf_dicts_def nth_append split: if_splits)
  have d4: "songs_dict st' (s_id (song_objs st' ! r)) = Some r"
    if "r < length (song_objs st')" for r
  proof -
    from that have "r < ?n \<or> r = ?n" by (auto simp: so)
    then show ?thesis
      using wd new(1) other by (auto simp: so sd wf_dicts_def nth_append)
  qed
  from d1 d2 d3 d4 have 1: "wf_dicts st'" unfolding wf_dicts_def by blast
  have 2: "wf_refs st'"
    unfolding wf_refs_def
  proof (intro allI impI)
    fix r
    assume "r < length (song_objs st')"
    then have "r < ?n \<or> r = ?n" by (auto simp: so)
    then show "s_artist (song_objs st' ! r) < length (artist_objs st')
        \<and> (\<forall>f\<in>set (s_featured_artists (song_objs st' ! r)). f < length (artist_objs st'))"
      using wr a fs new(2,3) by (auto simp: so len wf_refs_def nth_append)
  qed
  have l: "distinct (a_songs (artist_objs st' ! x))
        \<and> set (a_songs (artist_objs st' ! x))
            = {r. r < length (song_objs st') \<and> s_artist (song_objs st' ! r) = x}
        \<and> set (a_featured_on (artist_objs st' ! x))
            = {r. r < length (song_objs st') \<and> x \<in> set (s_featured_artists (song_objs st' ! r))}"
    if "x < length (artist_objs st')" for x
  proof -
    from that have x: "x < length (artist_objs st2)" by (simp add: len)
    with wl have old: "distinct (a_songs (artist_objs st2 ! x))"
      "set (a_songs (artist_objs st2 ! x)) = {r. r < ?n \<and> s_artist (song_objs st2 ! r) = x}"
      "set (a_featured_on (artist_objs st2 ! x))
         = {r. r < ?n \<and> x \<in> set (s_featured_artists (song_objs st2 ! r))}"
      by (simp_all add: wf_links_def)
    from objs x have now: "a_songs (artist_objs st' ! x)
               = a_songs (artist_objs st2 ! x) @ (if x = a then [?n] else [])"
      "a_featured_on (artist_objs st' ! x)
               = a_featured_on (artist_objs st2 ! x) @ replicate (count_list fs x) ?n"
      by simp_all
    have fresh: "?n \<notin> set (a_songs (artist_objs st2 ! x))"
      by (simp add: old)
    have s1: "distinct (a_songs (artist_objs st' ! x))"
      using old(1) fresh by (auto simp: now)
    have s2: "set (a_songs (artist_objs st' ! x))
            = {r. r < length (song_objs st') \<and> s_artist (song_objs st' ! r) = x}"
      using new(2) by (auto simp: now old so nth_append less_Suc_eq)
    have rep: "set (replicate (count_list fs x) ?n) = (if x \<in> set fs then {?n} else {})"
      by (auto simp: count_list_0_iff)
    have s3: "set (a_featured_on (artist_objs st' ! x))
            = {r. r < length (song_objs st') \<and> x \<in> set (s_featured_artists (song_objs st' ! r))}"
      using new(3) by (auto simp: now old rep so nth_append less_Suc_eq split: if_splits)
    from s1 s2 s3 show ?thesis by blast
  qed
  then have 3: "wf_links st'" unfolding wf_links_def by blast
  have 4: "wf_titles U st'"
    unfolding wf_titles_def
  proof (intro allI impI)
    fix r
    assume "r < length (song_objs st')"
    then have "r < ?n \<or> r = ?n" by (auto simp: so)
    then show "nfkd U (s_title (song_objs st' ! r)) = s_title (song_objs st' ! r)
        \<and> nfkd U (s_full_title (song_objs st' ! r)) = s_full_title (song_objs st' ! r)"
      using wt new(4,5) by (auto simp: so wf_titles_def nth_append)
  qed
  from 1 2 3 4 show ?thesis by (simp add: wf_world_def)
qed

lemma keeps_length: "keeps st st' \<Longrightarrow> length (artist_objs st) \<le> length (artist_objs st')"
  by (simp add: keeps_def)

lemma Song_from_data_wf:
  assumes "wf_world U st" and "Song_from_data U st d = (st', r)" and "ucd_full U"
  shows "wf_world U st'"
proof (cases "songs_dict st (sd_id d)")
  case (Some q)
  with assms show ?thesis by (simp add: Song_from_data_def)
next
  case None
  obtain st1 a where a: "Artist_from_data st (sd_primary_artist d) = (st1, a)"
    by (cases "Artist_from_data st (sd_primary_artist d)")
  obtain st2 fs where f: "featured_from_data st1 (sd_featured_artists d) = (st2, fs)"
    by (cases "featured_from_data st1 (sd_featured_artists d)")
  from assms(1) a have w1: "wf_world U st1" by (rule Artist_from_data_wf)
  from w1 f have w2: "wf_world U st2" by (rule featured_from_data_wf)
  from Artist_from_data_ref [OF assms(1) a] have "a < length (artist_objs st1)" by simp
  moreover from featured_from_data_keeps [of st1 "sd_featured_artists d"] f
  have "length (artist_objs st1) \<le> length (artist_objs st2)" by (auto dest: keeps_length)
  ultimately have a2: "a < length (artist_objs st2)" by simp
  from featured_from_data_refs [OF w1 f] have fs: "\<forall>f\<in>set fs. f < length (artist_objs st2)"
    by simp
  note p = Song_from_data_parts [OF None a f assms(2)]
  show ?thesis
    by (rule wf_new_song [OF w2 a2 fs p(4) p(2) p(3) p(5) p(6) p(7)]) (simp_all add: nfkd_idem [OF assms(3)])
qed

lemma set_lyrics_wf:
  assumes "wf_world U st"
  shows "wf_world U (set_lyrics r v st)"
proof (cases "r < length (song_objs st)")
  case False
  then have "(song_objs st)[r := (song_objs st ! r)\<lparr>s_lyrics := v\<rparr>] = song_objs st"
    by (simp add: list_update_beyond)
  with assms show ?thesis by (simp add: set_lyrics_def)
next
  case True
  have f: "s_id (song_objs (set_lyrics r v st) ! x) = s_id (song_objs st ! x)
         \<and> s_artist (song_objs (set_lyrics r v st) ! x) = s_artist (song_objs st ! x)
         \<and> s_featured_artists (song_objs (set_lyrics r v st) ! x)
             = s_featured_artists (song_objs st ! x)
         \<and> s_title (song_objs (set_lyrics r v st) ! x) = s_title (song_objs st ! x)
         \<and> s_full_title (song_objs (set_lyrics r v st) ! x) = s_full_title (song_objs st ! x)"
    for x
    using True by (cases "x = r") (simp_all add: set_lyrics_def)
  have g: "length (song_objs (set_lyrics r v st)) = length (song_objs st)"
    "artist_objs (set_lyrics r v st) = artist_objs st"
    "artists_dict (set_lyrics r v st) = artists_dict st"
    "songs_dict (set_lyrics r v st) = songs_dict st"
    by (simp_all add: set_lyrics_def)
  from assms show ?thesis
    unfolding wf_world_def wf_dicts_def wf_refs_def wf_links_def wf_titles_def
    by (simp only: f g)
qed

lemma wf_world_files [simp]: "wf_world U (st\<lparr>files := fl\<rparr>) = wf_world U st"
  by (simp add: wf_world_def wf_dicts_def wf_refs_def wf_links_def wf_titles_def)

lemma wf_world_requested [simp]: "wf_world U (st\<lparr>requested := q\<rparr>) = wf_world U st"
  by (simp add: wf_world_def wf_dicts_def wf_refs_def wf_links_def wf_titles_def)

text \<open>Every run of calls from a state of the program leads to a state of the program.\<close>

lemma run_calls_wf: "ucd_full U \<Longrightarrow> wf_world U st \<Longrightarrow> wf_world U (run_calls U st cs)"
  unfolding run_calls_def
proof (induction cs arbitrary: st)
  case Nil
  then show ?case by simp
next
  case (Cons c cs)
  have "wf_world U (run_call U st c)"
  proof (cases c)
    case (Decode_artist d)
    with Cons.prems Artist_from_data_wf [of U st d "fst (Artist_from_data st d)" "snd (Artist_from_data st d)"]
    show ?thesis by simp
  next
    case (Decode_song d)
    with Cons.prems Song_from_data_wf [of U st d "fst (Song_from_data U st d)" "snd (Song_from_data U st d)"]
    show ?thesis by simp
  next
    case (Assign_lyrics r v)
    with Cons.prems show ?thesis by (simp add: set_lyrics_wf)
  qed
  from Cons.IH [OF Cons.prems(1) this] show ?case by simp
qed

section \<open>Save and load: properties\<close>

lemma song_view_keeps:
  assumes k: "keeps L L'" and w: "wf_refs L" and q: "q < length (song_objs L)"
    and l: "s_lyrics (song_objs L' ! q) = s_lyrics (song_objs L ! q)"
  shows "song_view L' q = song_view L q"
proof -
  from k q have s: "s_id (song_objs L' ! q) = s_id (song_objs L ! q)"
    "s_title (song_objs L' ! q) = s_title (song_objs L ! q)"
    "s_full_title (song_objs L' ! q) = s_full_title (song_objs L ! q)"
    "s_url (song_objs L' ! q) = s_url (song_objs L ! q)"
    "s_artist (song_objs L' ! q) = s_artist (song_objs L ! q)"
    "s_featured_artists (song_objs L' ! q) = s_featured_artists (song_objs L ! q)"
    by (simp_all add: keeps_def)
  from w q have a: "s_artist (song_objs L ! q) < length (artist_objs L)"
    and f: "\<forall>f\<in>set (s_featured_artists (song_objs L ! q)). f < length (artist_objs L)"
    by (simp_all add: wf_refs_def)
  from k a have a': "a_id (artist_objs L' ! s_artist (song_objs L ! q))
      = a_id (artist_objs L ! s_artist (song_objs L ! q))"
    by (simp add: keeps_def)
  from k f have f': "map (\<lambda>f. a_id (artist_objs L' ! f)) (s_featured_artists (song_objs L ! q))
      = map (\<lambda>f. a_id (artist_objs L ! f)) (s_featured_artists (song_objs L ! q))"
    by (simp add: keeps_def)
  show ?thesis
    by (simp add: song_view_def Let_def s l a' f')
qed

lemma Song_to_dict_fields:
  "sd_id (Song_to_dict st s) = s_id s"
  "sd_title (Song_to_dict st s) = s_title s"
  "sd_full_title (Song_to_dict st s) = s_full_title s"
  "sd_url (Song_to_dict st s) = s_url s"
  "ad_id (sd_primary_artist (Song_to_dict st s)) = a_id (artist_objs st ! s_artist s)"
  "map ad_id (sd_featured_artists (Song_to_dict st s))
     = map (\<lambda>f. a_id (artist_objs st ! f)) (s_featured_artists s)"
  "sd_lyrics (Song_to_dict st s) = s_lyrics s"
  by (simp_all add: Song_to_dict_def Artist_to_dict_def comp_def)

lemma set_lyrics_same: "set_lyrics q (s_lyrics (song_objs st ! q)) st = st"
  by (simp add: set_lyrics_def)

lemma song_view_lyrics: "song_view L q = song_view st r \<Longrightarrow> s_lyrics (song_objs L ! q) = s_lyrics (song_objs st ! r)"
  by (simp add: song_view_def Let_def)

lemma load_step:
  assumes full: "ucd_full U" and wst: "wf_world U st" and wL: "wf_world U L"
    and ag: "agree st L" and r: "r < length (song_objs st)"
    and sf: "Song_from_data U L (Song_to_dict st (song_objs st ! r)) = (L1, q)"
  shows "wf_world U (set_lyrics q (s_lyrics (song_objs st ! r)) L1)
    \<and> agree st (set_lyrics q (s_lyrics (song_objs st ! r)) L1)
    \<and> keeps L (set_lyrics q (s_lyrics (song_objs st ! r)) L1)
    \<and> songs_dict (set_lyrics q (s_lyrics (song_objs st ! r)) L1) (s_id (song_objs st ! r)) = Some q"
proof -
  let ?s = "song_objs st ! r"
  let ?d = "Song_to_dict st ?s"
  let ?L2 = "set_lyrics q (s_lyrics ?s) L1"
  from wst r have reg: "songs_dict st (s_id ?s) = Some r"
    by (simp add: wf_world_def wf_dicts_def)
  show ?thesis
  proof (cases "songs_dict L (sd_id ?d)")
    case (Some q')
    with sf have eq: "L1 = L" "q = q'"
      by (simp_all add: Song_from_data_hit)
    from Some have hit: "songs_dict L (s_id ?s) = Some q"
      by (simp add: eq Song_to_dict_fields)
    with ag obtain r' where "songs_dict st (s_id ?s) = Some r'" "song_view L q = song_view st r'"
      unfolding agree_def by blast
    with reg have "song_view L q = song_view st r" by simp
    then have "s_lyrics (song_objs L ! q) = s_lyrics ?s" by (rule song_view_lyrics)
    with set_lyrics_same [of q L] have "?L2 = L" by (simp add: eq)
    with wL ag hit show ?thesis by (simp add: keeps_refl)
  next
    case None
    obtain st1 a where a: "Artist_from_data L (sd_primary_artist ?d) = (st1, a)"
      by (cases "Artist_from_data L (sd_primary_artist ?d)")
    obtain st2 fs where f: "featured_from_data st1 (sd_featured_artists ?d) = (st2, fs)"
      by (cases "featured_from_data st1 (sd_featured_artists ?d)")
    note p = Song_from_data_parts [OF None a f sf]
    from Artist_from_data_songs [of L "sd_primary_artist ?d"] a
    have s1: "song_objs st1 = song_objs L" "songs_dict st1 = songs_dict L" by simp_all
    from featured_from_data_songs [of st1 "sd_featured_artists ?d"] f s1
    have s2: "song_objs st2 = song_objs L" "songs_dict st2 = songs_dict L" by simp_all
    from wL a have w1: "wf_world U st1" by (rule Artist_from_data_wf)
    from w1 f have w2: "wf_world U st2" by (rule featured_from_data_wf)
    from wL sf full have wL1: "wf_world U L1" by (rule Song_from_data_wf)
    then have wL2: "wf_world U ?L2" by (rule set_lyrics_wf)
    from Song_from_data_keeps [of L U ?d] sf have "keeps L L1" by simp
    moreover have "keeps L1 ?L2" by (rule set_lyrics_keeps)
    ultimately have k: "keeps L ?L2" by (rule keeps_trans)
    have q: "q = length (song_objs L)" using p(1) s2 by simp
    have so: "song_objs ?L2 = (song_objs L @
           [\<lparr>s_id = sd_id ?d, s_title = nfkd U (sd_title ?d),
             s_full_title = nfkd U (sd_full_title ?d), s_url = sd_url ?d,
             s_artist = a, s_featured_artists = fs, s_lyrics = None\<rparr>])
           [q := \<lparr>s_id = sd_id ?d, s_title = nfkd U (sd_title ?d),
             s_full_title = nfkd U (sd_full_title ?d), s_url = sd_url ?d,
             s_artist = a, s_featured_artists = fs, s_lyrics = s_lyrics ?s\<rparr>]"
      by (simp add: set_lyrics_def p(2) s2 q)
    have ao: "artist_objs ?L2 = artist_objs L1" by (simp add: set_lyrics_def)
    from p(3) p(4) have sd: "songs_dict ?L2 = (songs_dict L)(s_id ?s \<mapsto> q)"
      "songs_dict L (s_id ?s) = None"
      using None by (simp_all add: set_lyrics_def Song_to_dict_fields p(1) s2)
    \<comment> \<open>the artists of the new song\<close>
    from Artist_from_data_ref [OF wL a]
    have a1: "a < length (artist_objs st1)" "a_id (artist_objs st1 ! a) = a_id (artist_objs st ! s_artist ?s)"
      by (simp_all add: Song_to_dict_fields)
    from featured_from_data_keeps [of st1 "sd_featured_artists ?d"] f have k12: "keeps st1 st2"
      by simp
    from keeps_artist_id [OF k12 a1(1)] a1(2)
    have a2: "a < length (artist_objs st2)" "a_id (artist_objs st2 ! a) = a_id (artist_objs st ! s_artist ?s)"
      by simp_all
    with p(7) have a3: "a_id (artist_objs L1 ! a) = a_id (artist_objs st ! s_artist ?s)"
      by simp
    from featured_from_data_refs [OF w1 f]
    have f2: "\<forall>f\<in>set fs. f < length (artist_objs st2)"
      "map (\<lambda>f. a_id (artist_objs st2 ! f)) fs
         = map (\<lambda>f. a_id (artist_objs st ! f)) (s_featured_artists ?s)"
      by (simp_all add: Song_to_dict_fields)
    from f2(1) p(7) have "map (\<lambda>f. a_id (artist_objs L1 ! f)) fs
         = map (\<lambda>f. a_id (artist_objs st2 ! f)) fs"
      by simp
    with f2(2) have f3: "map (\<lambda>f. a_id (artist_objs L1 ! f)) fs
         = map (\<lambda>f. a_id (artist_objs st ! f)) (s_featured_artists ?s)"
      by simp
    from wst r have t: "nfkd U (s_title ?s) = s_title ?s" "nfkd U (s_full_title ?s) = s_full_title ?s"
      by (simp_all add: wf_world_def wf_titles_def)
    have nq: "song_objs ?L2 ! q =
           \<lparr>s_id = sd_id ?d, s_title = nfkd U (sd_title ?d),
             s_full_title = nfkd U (sd_full_title ?d), s_url = sd_url ?d,
             s_artist = a, s_featured_artists = fs, s_lyrics = s_lyrics ?s\<rparr>"
      by (subst so) (simp add: q)
    have new: "song_view ?L2 q = song_view st r"
      by (simp add: song_view_def Let_def nq ao a3 f3 t Song_to_dict_fields)
    have old: "song_view ?L2 q' = song_view L q'" if "songs_dict L j = Some q'" for j q'
    proof -
      from wL that have q': "q' < length (song_objs L)"
        by (auto simp: wf_world_def wf_dicts_def)
      then have "s_lyrics (song_objs ?L2 ! q') = s_lyrics (song_objs L ! q')"
        by (subst so) (simp add: q nth_append)
      with k wL q' show ?thesis
        by (intro song_view_keeps) (simp_all add: wf_world_def)
    qed
    have "agree st ?L2"
      unfolding agree_def
    proof (intro allI impI)
      fix j q'
      assume h: "songs_dict ?L2 j = Some q'"
      show "\<exists>r. songs_dict st j = Some r \<and> song_view ?L2 q' = song_view st r"
      proof (cases "j = s_id ?s")
        case True
        with h sd have "q' = q" by simp
        with True reg new show ?thesis by simp
      next
        case False
        with h sd have l: "songs_dict L j = Some q'" by simp
        with ag obtain r' where "songs_dict st j = Some r'" "song_view L q' = song_view st r'"
          unfolding agree_def by blast
        with old [OF l] show ?thesis by simp
      qed
    qed
    with wL2 k sd show ?thesis by simp
  qed
qed

lemma load_all:
  assumes full: "ucd_full U" and wst: "wf_world U st"
  shows "wf_world U L \<Longrightarrow> agree st L \<Longrightarrow> \<forall>r\<in>set rs. r < length (song_objs st)
    \<Longrightarrow> wf_world U (load_songs U L (map (\<lambda>r. Song_to_dict st (song_objs st ! r)) rs))
        \<and> agree st (load_songs U L (map (\<lambda>r. Song_to_dict st (song_objs st ! r)) rs))
        \<and> keeps L (load_songs U L (map (\<lambda>r. Song_to_dict st (song_objs st ! r)) rs))
        \<and> (\<forall>r\<in>set rs. songs_dict (load_songs U L (map (\<lambda>r. Song_to_dict st (song_objs st ! r)) rs))
               (s_id (song_objs st ! r)) \<noteq> None)"
proof (induction rs arbitrary: L)
  case Nil
  then show ?case by (simp add: keeps_refl)
next
  case (Cons r rs)
  let ?d = "Song_to_dict st (song_objs st ! r)"
  obtain L1 q where sf: "Song_from_data U L ?d = (L1, q)"
    by (cases "Song_from_data U L ?d")
  let ?L2 = "set_lyrics q (s_lyrics (song_objs st ! r)) L1"
  let ?L' = "load_songs U ?L2 (map (\<lambda>r. Song_to_dict st (song_objs st ! r)) rs)"
  from Cons.prems have r: "r < length (song_objs st)"
    and rs: "\<forall>r\<in>set rs. r < length (song_objs st)"
    by simp_all
  from load_step [OF full wst Cons.prems(1,2) r sf]
  have step: "wf_world U ?L2" "agree st ?L2" "keeps L ?L2"
    "songs_dict ?L2 (s_id (song_objs st ! r)) = Some q"
    by simp_all
  from Cons.IH [OF step(1,2) rs]
  have ih: "wf_world U ?L'" "agree st ?L'" "keeps ?L2 ?L'"
    "\<forall>r\<in>set rs. songs_dict ?L' (s_id (song_objs st ! r)) \<noteq> None"
    by simp_all
  have eq: "load_songs U L (map (\<lambda>r. Song_to_dict st (song_objs st ! r)) (r # rs)) = ?L'"
    by (simp add: sf Song_to_dict_fields)
  from step(3) ih(3) have k: "keeps L ?L'" by (rule keeps_trans)
  from ih(3) step(4) have "songs_dict ?L' (s_id (song_objs st ! r)) = Some q"
    by (simp add: keeps_def)
  with ih k show ?case
    unfolding eq by simp
qed

lemma artist_inj:
  assumes "wf_dicts W" and "x < length (artist_objs W)" and "y < length (artist_objs W)"
    and "a_id (artist_objs W ! x) = a_id (artist_objs W ! y)"
  shows "x = y"
proof -
  from assms(1,2) have "Some x = artists_dict W (a_id (artist_objs W ! x))"
    by (simp add: wf_dicts_def)
  also have "\<dots> = artists_dict W (a_id (artist_objs W ! y))"
    by (simp only: assms(4))
  also from assms(1,3) have "\<dots> = Some y"
    by (simp add: wf_dicts_def)
  finally show ?thesis by simp
qed

lemma artist_mem:
  assumes "wf_dicts W" and "x < length (artist_objs W)"
    and "\<forall>f\<in>set fs. f < length (artist_objs W)"
  shows "a_id (artist_objs W ! x) \<in> set (map (\<lambda>f. a_id (artist_objs W ! f)) fs) \<longleftrightarrow> x \<in> set fs"
proof
  assume "a_id (artist_objs W ! x) \<in> set (map (\<lambda>f. a_id (artist_objs W ! f)) fs)"
  then obtain f where f: "f \<in> set fs" "a_id (artist_objs W ! x) = a_id (artist_objs W ! f)"
    by auto
  with assms(3) have "f < length (artist_objs W)" by simp
  from artist_inj [OF assms(1,2) this f(2)] f(1) show "x \<in> set fs" by simp
next
  assume "x \<in> set fs"
  then show "a_id (artist_objs W ! x) \<in> set (map (\<lambda>f. a_id (artist_objs W ! f)) fs)"
    by auto
qed

lemma song_view_artists:
  "song_view L q = song_view st r
   \<Longrightarrow> a_id (artist_objs L ! s_artist (song_objs L ! q))
         = a_id (artist_objs st ! s_artist (song_objs st ! r))
       \<and> map (\<lambda>f. a_id (artist_objs L ! f)) (s_featured_artists (song_objs L ! q))
         = map (\<lambda>f. a_id (artist_objs st ! f)) (s_featured_artists (song_objs st ! r))"
  by (simp add: song_view_def Let_def)

text \<open>
  Two songs with the same view, in two states, and two artists with the same id: the one
  is the primary artist of its song, or featured on it, exactly when the other is.
\<close>

lemma same_roles:
  assumes wL: "wf_world U L" and wst: "wf_world U st"
    and q: "q < length (song_objs L)" and r: "r < length (song_objs st)"
    and v: "song_view L q = song_view st r"
    and p: "p < length (artist_objs L)" and self: "self < length (artist_objs st)"
    and i: "a_id (artist_objs L ! p) = a_id (artist_objs st ! self)"
  shows "(s_artist (song_objs L ! q) = p \<longleftrightarrow> s_artist (song_objs st ! r) = self)
       \<and> (p \<in> set (s_featured_artists (song_objs L ! q))
            \<longleftrightarrow> self \<in> set (s_featured_artists (song_objs st ! r)))"
proof -
  from wL q have aL: "s_artist (song_objs L ! q) < length (artist_objs L)"
    and fL: "\<forall>f\<in>set (s_featured_artists (song_objs L ! q)). f < length (artist_objs L)"
    by (simp_all add: wf_world_def wf_refs_def)
  from wst r have ast: "s_artist (song_objs st ! r) < length (artist_objs st)"
    and fst: "\<forall>f\<in>set (s_featured_artists (song_objs st ! r)). f < length (artist_objs st)"
    by (simp_all add: wf_world_def wf_refs_def)
  from wL wst have dL: "wf_dicts L" and dst: "wf_dicts st" by (simp_all add: wf_world_def)
  note va = song_view_artists [OF v]
  have 1: "s_artist (song_objs L ! q) = p \<longleftrightarrow> s_artist (song_objs st ! r) = self"
  proof
    assume "s_artist (song_objs L ! q) = p"
    with va i have "a_id (artist_objs st ! s_artist (song_objs st ! r)) = a_id (artist_objs st ! self)"
      by simp
    from artist_inj [OF dst ast self this] show "s_artist (song_objs st ! r) = self" .
  next
    assume "s_artist (song_objs st ! r) = self"
    with va i have "a_id (artist_objs L ! s_artist (song_objs L ! q)) = a_id (artist_objs L ! p)"
      by simp
    from artist_inj [OF dL aL p this] show "s_artist (song_objs L ! q) = p" .
  qed
  have "p \<in> set (s_featured_artists (song_objs L ! q))
      \<longleftrightarrow> a_id (artist_objs L ! p)
            \<in> set (map (\<lambda>f. a_id (artist_objs L ! f)) (s_featured_artists (song_objs L ! q)))"
    by (rule artist_mem [OF dL p fL, symmetric])
  also have "\<dots> \<longleftrightarrow> a_id (artist_objs st ! self)
            \<in> set (map (\<lambda>f. a_id (artist_objs st ! f)) (s_featured_artists (song_objs st ! r)))"
    using va i by simp
  also have "\<dots> \<longleftrightarrow> self \<in> set (s_featured_artists (song_objs st ! r))"
    by (rule artist_mem [OF dst self fst])
  finally show ?thesis using 1 by simp
qed

text \<open>
  Claim C5. Let \<open>st\<close> be a state of the program (\<open>wf_world\<close>, which every run of
  calls keeps, see \<open>run_calls_wf\<close>) and \<open>self\<close> an artist of it. When the
  artist is saved and the file is loaded by a process that has just started on that disk,
  \<^verbatim>\<open>load_artist\<close> returns an artist with the same id, name and url whose songs,
  and whose songs it is featured on, are the saved ones: the same ids, each with the same
  title, full title, url, id of the primary artist, ids of the featured artists and
  lyrics (a string or \<^verbatim>\<open>None\<close>). The titles are read through NFKD a second time,
  which changes nothing when the decompositions of the database are full.
\<close>

theorem save_load_roundtrip:
  assumes full: "ucd_full U" and wst: "wf_world U st" and self: "self < length (artist_objs st)"
  shows "\<exists>L p. load_artist U (fresh (files (save_artist st self now save_dir)))
                 (a_id (artist_objs st ! self)) save_dir = (L, Inr p)
           \<and> a_id (artist_objs L ! p) = a_id (artist_objs st ! self)
           \<and> a_name (artist_objs L ! p) = a_name (artist_objs st ! self)
           \<and> a_url (artist_objs L ! p) = a_url (artist_objs st ! self)
           \<and> song_view L ` set (a_songs (artist_objs L ! p))
               = song_view st ` set (a_songs (artist_objs st ! self))
           \<and> song_view L ` set (a_featured_on (artist_objs L ! p))
               = song_view st ` set (a_featured_on (artist_objs st ! self))"
proof -
  let ?A = "artist_objs st ! self"
  let ?obj = "\<lparr>ad_id = a_id ?A, ad_name = a_name ?A, ad_url = a_url ?A, af_time = now,
       af_songs = map (\<lambda>song. Song_to_dict st (song_objs st ! song)) (a_songs ?A),
       af_featured_on = map (\<lambda>song. Song_to_dict st (song_objs st ! song)) (a_featured_on ?A)\<rparr>"
  let ?L0 = "fresh (files (save_artist st self now save_dir))"
  define rs where "rs = a_songs ?A @ a_featured_on ?A"
  have disk: "files ?L0 (json_path save_dir (a_id ?A)) = Some ?obj"
    by (simp add: fresh_def save_artist_def Artist_save_def Let_def)
  obtain L1 p where ap: "Artist_from_data ?L0 ?obj = (L1, p)"
    by (cases "Artist_from_data ?L0 ?obj")
  define L where "L = load_songs U L1 (map (\<lambda>r. Song_to_dict st (song_objs st ! r)) rs)"
  have ld: "load_artist U ?L0 (a_id ?A) save_dir = (L, Inr p)"
    by (simp add: load_artist_def disk ap L_def rs_def)
  have w0: "wf_world U ?L0" by (rule wf_world_fresh)
  from w0 ap have w1: "wf_world U L1" by (rule Artist_from_data_wf)
  from Artist_from_data_ref [OF w0 ap]
  have p1: "p < length (artist_objs L1)" "a_id (artist_objs L1 ! p) = a_id ?A"
    by simp_all
  from Artist_from_data_cases [OF ap]
  have n1: "a_name (artist_objs L1 ! p) = a_name ?A" "a_url (artist_objs L1 ! p) = a_url ?A"
    by (auto simp: fresh_def)
  from Artist_from_data_songs [of ?L0 ?obj] ap have "songs_dict L1 = Map.empty"
    by (simp add: fresh_def)
  then have ag1: "agree st L1" by (simp add: agree_def)
  from wst have dst: "wf_dicts st" and lst: "wf_links st" by (simp_all add: wf_world_def)
  from lst self have links_st:
    "set (a_songs ?A) = {r. r < length (song_objs st) \<and> s_artist (song_objs st ! r) = self}"
    "set (a_featured_on ?A)
       = {r. r < length (song_objs st) \<and> self \<in> set (s_featured_artists (song_objs st ! r))}"
    by (simp_all add: wf_links_def)
  then have valid: "\<forall>r\<in>set rs. r < length (song_objs st)"
    by (auto simp: rs_def)
  from load_all [OF full wst w1 ag1 valid]
  have wL: "wf_world U L" and agL: "agree st L" and kL: "keeps L1 L"
    and regL: "\<forall>r\<in>set rs. songs_dict L (s_id (song_objs st ! r)) \<noteq> None"
    by (simp_all add: L_def)
  from kL p1 n1 have p: "p < length (artist_objs L)"
    and i: "a_id (artist_objs L ! p) = a_id ?A"
    and n: "a_name (artist_objs L ! p) = a_name ?A" "a_url (artist_objs L ! p) = a_url ?A"
    by (auto simp: keeps_def)
  from wL have dL: "wf_dicts L" and lL: "wf_links L" by (simp_all add: wf_world_def)
  from lL p have links_L:
    "set (a_songs (artist_objs L ! p))
       = {q. q < length (song_objs L) \<and> s_artist (song_objs L ! q) = p}"
    "set (a_featured_on (artist_objs L ! p))
       = {q. q < length (song_objs L) \<and> p \<in> set (s_featured_artists (song_objs L ! q))}"
    by (simp_all add: wf_links_def)
  have orig_of: "\<exists>r<length (song_objs st). song_view L q = song_view st r"
    if "q < length (song_objs L)" for q
  proof -
    from dL that have "songs_dict L (s_id (song_objs L ! q)) = Some q"
      by (simp add: wf_dicts_def)
    with agL obtain r where r: "songs_dict st (s_id (song_objs L ! q)) = Some r"
      "song_view L q = song_view st r"
      unfolding agree_def by blast
    from dst r(1) have "r < length (song_objs st)" by (auto simp: wf_dicts_def)
    with r(2) show ?thesis by blast
  qed
  have copy_of: "\<exists>q<length (song_objs L). song_view L q = song_view st r"
    if "r \<in> set rs" for r
  proof -
    from regL that obtain q where q: "songs_dict L (s_id (song_objs st ! r)) = Some q"
      by blast
    with agL obtain r' where r': "songs_dict st (s_id (song_objs st ! r)) = Some r'"
      "song_view L q = song_view st r'"
      unfolding agree_def by blast
    from valid that have "r < length (song_objs st)" by simp
    with dst have "songs_dict st (s_id (song_objs st ! r)) = Some r"
      by (simp add: wf_dicts_def)
    with r' have "song_view L q = song_view st r" by simp
    moreover from dL q have "q < length (song_objs L)" by (auto simp: wf_dicts_def)
    ultimately show ?thesis by blast
  qed
  note roles = same_roles [OF wL wst _ _ _ p self i]
  have songs: "song_view L ` set (a_songs (artist_objs L ! p)) = song_view st ` set (a_songs ?A)"
  proof (intro equalityI subsetI)
    fix v
    assume "v \<in> song_view L ` set (a_songs (artist_objs L ! p))"
    then obtain q where q: "q < length (song_objs L)" "s_artist (song_objs L ! q) = p"
      "v = song_view L q"
      by (auto simp: links_L)
    from orig_of [OF q(1)] obtain r where r: "r < length (song_objs st)"
      "song_view L q = song_view st r"
      by blast
    from roles [OF q(1) r] q(2) have "s_artist (song_objs st ! r) = self" by simp
    with r(1) have "r \<in> set (a_songs ?A)" by (simp add: links_st)
    moreover from q(3) r(2) have "v = song_view st r" by simp
    ultimately show "v \<in> song_view st ` set (a_songs ?A)"
      by (intro image_eqI)
  next
    fix v
    assume "v \<in> song_view st ` set (a_songs ?A)"
    then obtain r where r: "r \<in> set (a_songs ?A)" "v = song_view st r"
      by auto
    then have r': "r < length (song_objs st)" "s_artist (song_objs st ! r) = self"
      by (simp_all add: links_st)
    from r(1) have "r \<in> set rs" by (simp add: rs_def)
    from copy_of [OF this] obtain q where q: "q < length (song_objs L)"
      "song_view L q = song_view st r"
      by blast
    from roles [OF q(1) r'(1) q(2)] r'(2) have "s_artist (song_objs L ! q) = p" by simp
    with q(1) have "q \<in> set (a_songs (artist_objs L ! p))" by (simp add: links_L)
    moreover from q(2) r(2) have "v = song_view L q" by simp
    ultimately show "v \<in> song_view L ` set (a_songs (artist_objs L ! p))"
      by (intro image_eqI)
  qed
  have featured: "song_view L ` set (a_featured_on (artist_objs L ! p))
      = song_view st ` set (a_featured_on ?A)"
  proof (intro equalityI subsetI)
    fix v
    assume "v \<in> song_view L ` set (a_featured_on (artist_objs L ! p))"
    then obtain q where q: "q < length (song_objs L)"
      "p \<in> set (s_featured_artists (song_objs L ! q))" "v = song_view L q"
      by (auto simp: links_L)
    from orig_of [OF q(1)] obtain r where r: "r < length (song_objs st)"
      "song_view L q = song_view st r"
      by blast
    from roles [OF q(1) r] q(2) have "self \<in> set (s_featured_artists (song_objs st ! r))"
      by simp
    with r(1) have "r \<in> set (a_featured_on ?A)" by (simp add: links_st)
    moreover from q(3) r(2) have "v = song_view st r" by simp
    ultimately show "v \<in> song_view st ` set (a_featured_on ?A)"
      by (intro image_eqI)
  next
    fix v
    assume "v \<in> song_view st ` set (a_featured_on ?A)"
    then obtain r where r: "r \<in> set (a_featured_on ?A)" "v = song_view st r"
      by auto
    then have r': "r < length (song_objs st)"
      "self \<in> set (s_featured_artists (song_objs st ! r))"
      by (simp_all add: links_st)
    from r(1) have "r \<in> set rs" by (simp add: rs_def)
    from copy_of [OF this] obtain q where q: "q < length (song_objs L)"
      "song_view L q = song_view st r"
      by blast
    from roles [OF q(1) r'(1) q(2)] r'(2)
    have "p \<in> set (s_featured_artists (song_objs L ! q))" by simp
    with q(1) have "q \<in> set (a_featured_on (artist_objs L ! p))" by (simp add: links_L)
    moreover from q(2) r(2) have "v = song_view L q" by simp
    ultimately show "v \<in> song_view L ` set (a_featured_on (artist_objs L ! p))"
      by (intro image_eqI)
  qed
  from ld i n songs featured show ?thesis by blast
qed

text \<open>
  The first artist of the example, after the lyrics were fetched: one song of its own,
  with lyrics, and one song it is featured on, whose lyrics are the empty string.
\<close>

lemma fetched_world_wf: "wf_world excerpt fetched_world"
proof -
  have "run_calls excerpt (fresh Map.empty)
          [Decode_song song_one, Decode_song song_two,
           Assign_lyrics 0 (Some (ascii ''oh la la'')), Assign_lyrics 1 (Some [])]
        = fetched_world"
    by (simp add: run_calls_def fetched_world_def unfetched_world_def)
  with run_calls_wf [OF excerpt_full wf_world_fresh] show ?thesis
    by metis
qed

theorem save_load_roundtrip_witness:
  "\<exists>L p. load_artist excerpt (fresh (files (save_artist fetched_world 0 (3, 0) (ascii ''saved''))))
            3 (ascii ''saved'') = (L, Inr p)
     \<and> a_id (artist_objs L ! p) = 3
     \<and> a_name (artist_objs L ! p) = ascii ''Al''
     \<and> song_view L ` set (a_songs (artist_objs L ! p))
         = {(11, ascii ''One'', ascii ''One by Al (Ft. Bea)'',
             ascii ''https://genius.com/Al-one-lyrics'', 3, [7], Some (ascii ''oh la la''))}
     \<and> song_view L ` set (a_featured_on (artist_objs L ! p))
         = {(12, ascii ''Two'', ascii ''Two by Bea (Ft. Al)'',
             ascii ''https://genius.com/Bea-two-lyrics'', 7, [3], Some [])}"
proof -
  have len: "0 < length (artist_objs fetched_world)"
    by code_simp
  have a: "a_id (artist_objs fetched_world ! 0) = 3"
    "a_name (artist_objs fetched_world ! 0) = ascii ''Al''"
    by code_simp+
  have s: "map (song_view fetched_world) (a_songs (artist_objs fetched_world ! 0))
      = [(11, ascii ''One'', ascii ''One by Al (Ft. Bea)'',
          ascii ''https://genius.com/Al-one-lyrics'', 3, [7], Some (ascii ''oh la la''))]"
    by code_simp
  have f: "map (song_view fetched_world) (a_featured_on (artist_objs fetched_world ! 0))
      = [(12, ascii ''Two'', ascii ''Two by Bea (Ft. Al)'',
          ascii ''https://genius.com/Bea-two-lyrics'', 7, [3], Some [])]"
    by code_simp
  have s': "song_view fetched_world ` set (a_songs (artist_objs fetched_world ! 0))
      = {(11, ascii ''One'', ascii ''One by Al (Ft. Bea)'',
          ascii ''https://genius.com/Al-one-lyrics'', 3, [7], Some (ascii ''oh la la''))}"
    using arg_cong [OF s, of set] by (simp only: set_map list.set)
  have f': "song_view fetched_world ` set (a_featured_on (artist_objs fetched_world ! 0))
      = {(12, ascii ''Two'', ascii ''Two by Bea (Ft. Al)'',
          ascii ''https://genius.com/Bea-two-lyrics'', 7, [3], Some [])}"
    using arg_cong [OF f, of set] by (simp only: set_map list.set)
  from save_load_roundtrip [OF excerpt_full fetched_world_wf len, of "(3, 0)" "ascii ''saved''"]
  show ?thesis
    unfolding a s' f' by blast
qed

end
